theory Spec2Isabelle
  imports Complex_Main "HOL-Library.Sublist" "HOL-Library.Log_Nat"
begin

section \<open>Python strings\<close>

text \<open>
  A Python \<open>str\<close> is the list of its code points.  An ASCII literal of the source is
  written \<open>asc ''...''\<close>, and a few separators have names.
\<close>

type_synonym ustring = "nat list"

abbreviation asc :: "string \<Rightarrow> ustring" where
  "asc s \<equiv> map of_char s"

abbreviation (input) newline :: nat where "newline \<equiv> 10"
abbreviation (input) colon :: nat where "colon \<equiv> 58"
abbreviation (input) comma :: nat where "comma \<equiv> 44"
abbreviation (input) point :: nat where "point \<equiv> 46"
abbreviation (input) underscore :: nat where "underscore \<equiv> 95"

text \<open>
  The Unicode character database of the Python runtime is not part of the repository.
  What the program reads from it for a character beyond ASCII is a parameter of the model:
  the lowercase of the character at an index of a string (the context is given because
  the lowercase of a capital sigma depends on it), whether a character is whitespace, and
  the value of a character that is a decimal digit.  For ASCII characters the three are
  fixed, as below.
\<close>

record unicode =
  lower_ext :: "ustring \<Rightarrow> nat \<Rightarrow> ustring"
  isspace_ext :: "nat \<Rightarrow> bool"
  decimal_ext :: "nat \<Rightarrow> nat option"

definition lower_ascii :: "nat \<Rightarrow> nat" where
  "lower_ascii c = (if 65 \<le> c \<and> c \<le> 90 then c + 32 else c)"

text \<open>
  \<open>s.lower()\<close>: character by character, an ASCII capital to its small letter, any other
  ASCII character to itself, a character beyond ASCII to what the database gives, which
  may be several characters.
\<close>

definition lower :: "unicode \<Rightarrow> ustring \<Rightarrow> ustring" where
  "lower db s =
     concat (map (\<lambda>i. if s ! i < 128 then [lower_ascii (s ! i)] else lower_ext db s i)
                 [0..<length s])"

text \<open>\<open>needle in hay\<close>: the needle occurs as a contiguous substring.\<close>

fun str_in :: "ustring \<Rightarrow> ustring \<Rightarrow> bool" where
  "str_in needle [] = (needle = [])"
| "str_in needle (c # cs) = (prefix needle (c # cs) \<or> str_in needle cs)"

text \<open>\<open>s.split(d)\<close> for a one-character separator: never empty, one more field than separators.\<close>

fun split_on :: "nat \<Rightarrow> ustring \<Rightarrow> ustring list" where
  "split_on d [] = [[]]"
| "split_on d (c # cs) =
     (if c = d then [] # split_on d cs
      else (case split_on d cs of [] \<Rightarrow> [[c]] | w # ws \<Rightarrow> (c # w) # ws))"

text \<open>
  \<open>str.isspace\<close> of one character, the whitespace of \<open>strip()\<close> and \<open>split()\<close>: among the
  ASCII characters 9..13, 28..31 and 32; beyond ASCII what the database says.
\<close>

definition is_ascii_space :: "nat \<Rightarrow> bool" where
  "is_ascii_space c \<longleftrightarrow> c \<in> set [9, 10, 11, 12, 13, 28, 29, 30, 31, 32]"

definition is_space :: "unicode \<Rightarrow> nat \<Rightarrow> bool" where
  "is_space db c \<longleftrightarrow> (if c < 128 then is_ascii_space c else isspace_ext db c)"

definition strip :: "unicode \<Rightarrow> ustring \<Rightarrow> ustring" where
  "strip db s = rev (dropWhile (is_space db) (rev (dropWhile (is_space db) s)))"

text \<open>\<open>sep.join(xs)\<close>.\<close>

fun join :: "ustring \<Rightarrow> ustring list \<Rightarrow> ustring" where
  "join sep [] = []"
| "join sep [x] = x"
| "join sep (x # y # ys) = x @ sep @ join sep (y # ys)"

text \<open>\<open>str(n)\<close> for a non-negative integer.\<close>

fun str_nat :: "nat \<Rightarrow> ustring" where
  "str_nat n = (if n < 10 then [48 + n] else str_nat (n div 10) @ [48 + n mod 10])"

declare str_nat.simps [simp del]

section \<open>Command runner\<close>

text \<open>
  What \<open>subprocess.run\<close> can do: finish with a return code, standard output and standard
  error; run past the timeout; or raise another exception, of which \<open>str(e)\<close> is kept.
\<close>

datatype proc_result =
    Completed int ustring ustring
  | TimeoutExpired
  | Raised ustring

text \<open>
  The environment of a manager: the configured profile list, the external processes (the
  answer to the \<open>k\<close>-th invocation of the process, counted from 0, with its argument
  vector), the file system as the manager observes it through the configuration file
  of a profile name, and the character database of the runtime.
\<close>

datatype exists_result = Exists bool | ExistsPermissionError | ExistsError

datatype read_result = Content ustring | ReadPermissionError | ReadFileNotFound | ReadError ustring

record env =
  profiles :: "ustring list"
  subprocess_run :: "nat \<Rightarrow> ustring list \<Rightarrow> proc_result"
  conf_exists :: "ustring \<Rightarrow> exists_result"
  conf_read_text :: "ustring \<Rightarrow> read_result"
  which :: "ustring \<Rightarrow> bool"
  config_dir_exists :: bool
  udb :: unicode

text \<open>
  The mutable part: the commands run so far, in order (the log from which the number and
  kind of invocations is read), and the cached \<open>_active_profile\<close>.
\<close>

record mstate =
  calls :: "ustring list list"
  active_profile :: "ustring option"

definition timeout_wg_quick :: nat where "timeout_wg_quick = 60"
definition timeout_wg_show :: nat where "timeout_wg_show = 30"
definition max_retries_default :: int where "max_retries_default = 3"

text \<open>The word "Taimaut" (timeout) in Cyrillic letters, and the tail " sekund)" of the message.\<close>

definition msg_timeout :: ustring where
  "msg_timeout =
     [1058, 1072, 1081, 1084, 1072, 1091, 1090]"

definition msg_seconds :: ustring where
  "msg_seconds =
     asc '' '' @ [1089, 1077, 1082, 1091, 1085, 1076] @ asc '')''"

text \<open>
  What \<open>_run_command\<close> returns when \<open>k\<close> commands were run before it: success with the
  standard output on return code 0, failure with the standard error otherwise, failure with
  the timeout message or the exception's text when the process layer raises.
\<close>

definition outcome :: "env \<Rightarrow> ustring list \<Rightarrow> nat \<Rightarrow> nat \<Rightarrow> bool \<times> ustring" where
  "outcome e command timeout k =
     (case subprocess_run e k (asc ''pkexec'' # command) of
        Completed returncode out err \<Rightarrow> if returncode = 0 then (True, out) else (False, err)
      | TimeoutExpired \<Rightarrow> (False, msg_timeout @ asc '' ('' @ str_nat timeout @ msg_seconds)
      | Raised msg \<Rightarrow> (False, msg))"

definition run_command :: "env \<Rightarrow> ustring list \<Rightarrow> nat \<Rightarrow> mstate \<Rightarrow> (bool \<times> ustring) \<times> mstate" where
  "run_command e command timeout st =
     (outcome e command timeout (length (calls st)),
      st\<lparr>calls := calls st @ [asc ''pkexec'' # command]\<rparr>)"

section \<open>Retry policy\<close>

text \<open>
  The test after a failed attempt that ends the loop.  The second disjunct looks for the
  capitalised text in the lowered output, as the source does.
\<close>

definition stops_retry :: "unicode \<Rightarrow> ustring \<Rightarrow> bool" where
  "stops_retry db output =
     (let output_lower = lower db output
      in str_in msg_timeout output \<or> str_in (asc ''Permission denied'') output_lower \<or>
         str_in (asc ''not found'') output_lower \<or>
         str_in (asc ''authentication canceled'') output_lower)"

text \<open>
  The loop \<open>for attempt in range(max_retries)\<close>, by the number of attempts left;
  \<open>last_error\<close> is what the loop's exit returns.
\<close>

fun retry_loop :: "env \<Rightarrow> ustring list \<Rightarrow> nat \<Rightarrow> nat \<Rightarrow> ustring \<Rightarrow> mstate \<Rightarrow> (bool \<times> ustring) \<times> mstate" where
  "retry_loop e command timeout 0 last_error st = ((False, last_error), st)"
| "retry_loop e command timeout (Suc n) last_error st =
     (case run_command e command timeout st of
        ((success, output), st') \<Rightarrow>
          if success then ((True, output), st')
          else if stops_retry (udb e) output then ((False, output), st')
          else retry_loop e command timeout n output st')"

text \<open>The bound of the loop: \<open>max_retries\<close>, or the manager's default when it is \<open>None\<close>; \<open>range\<close> of a negative number is empty.\<close>

definition max_attempts :: "int option \<Rightarrow> nat" where
  "max_attempts max_retries = nat (case max_retries of None \<Rightarrow> max_retries_default | Some k \<Rightarrow> k)"

definition run_command_with_retry ::
  "env \<Rightarrow> ustring list \<Rightarrow> nat \<Rightarrow> int option \<Rightarrow> mstate \<Rightarrow> (bool \<times> ustring) \<times> mstate" where
  "run_command_with_retry e command timeout max_retries st =
     retry_loop e command timeout (max_attempts max_retries) [] st"

section \<open>Profile registry and validator\<close>

text \<open>Message texts of the source (Russian): "Profil' ", " ne sushchestvuet" and so on.\<close>

definition msg_profile :: ustring where
  "msg_profile =
     [1055, 1088, 1086, 1092, 1080, 1083, 1100] @ asc '' ''"

definition msg_not_exists :: ustring where
  "msg_not_exists =
     asc '' '' @ [1085, 1077] @ asc '' '' @ [1089, 1091, 1097, 1077, 1089, 1090, 1074, 1091,
     1077, 1090]"

definition msg_invalid :: ustring where
  "msg_invalid =
     asc '' '' @ [1085, 1077, 1074, 1072, 1083, 1080, 1076, 1077, 1085] @ asc '': ''"

definition msg_already_active :: ustring where
  "msg_already_active =
     asc '' '' @ [1091, 1078, 1077] @ asc '' '' @ [1072, 1082, 1090, 1080, 1074, 1077, 1085]"

definition msg_no_interface :: ustring where
  "msg_no_interface =
     [1054, 1090, 1089, 1091, 1090, 1089, 1090, 1074, 1091, 1077, 1090] @ asc '' '' @ [1089,
     1077, 1082, 1094, 1080, 1103] @ asc '' [Interface]''"

definition msg_std_profile :: ustring where
  "msg_std_profile =
     [1057, 1090, 1072, 1085, 1076, 1072, 1088, 1090, 1085, 1099, 1081] @ asc '' '' @ [1087,
     1088, 1086, 1092, 1080, 1083, 1100] @ asc '', '' @ [1087, 1088, 1086, 1074, 1077, 1088,
     1082, 1072] @ asc '' '' @ [1085, 1077] @ asc '' '' @ [1090, 1088, 1077, 1073, 1091,
     1077, 1090, 1089, 1103]"

definition msg_assume_valid :: ustring where
  "msg_assume_valid =
     [1055, 1088, 1086, 1074, 1077, 1088, 1082, 1072] @ asc '' '' @ [1087, 1088, 1072, 1074]
     @ asc '' '' @ [1076, 1086, 1089, 1090, 1091, 1087, 1072] @ asc '' '' @ [1085, 1077] @
     asc '' '' @ [1091, 1076, 1072, 1083, 1072, 1089, 1100] @ asc '', '' @ [1087, 1088, 1077,
     1076, 1087, 1086, 1083, 1072, 1075, 1072, 1077, 1084] @ asc '' '' @ [1074, 1072, 1083,
     1080, 1076, 1085, 1086, 1089, 1090, 1100]"

definition msg_read_error :: ustring where
  "msg_read_error =
     [1054, 1096, 1080, 1073, 1082, 1072] @ asc '' '' @ [1095, 1090, 1077, 1085, 1080, 1103]
     @ asc '' '' @ [1092, 1072, 1081, 1083, 1072] @ asc '': ''"

definition msg_all_off :: ustring where
  "msg_all_off =
     [1042, 1089, 1077] @ asc '' '' @ [1087, 1088, 1086, 1092, 1080, 1083, 1080] @ asc '' ''
     @ [1086, 1090, 1082, 1083, 1102, 1095, 1077, 1085, 1099]"

definition msg_off_errors :: ustring where
  "msg_off_errors =
     [1054, 1096, 1080, 1073, 1082, 1080] @ asc '' '' @ [1087, 1088, 1080] @ asc '' '' @
     [1086, 1090, 1082, 1083, 1102, 1095, 1077, 1085, 1080, 1080] @ asc '': ''"

definition msg_command :: ustring where
  "msg_command =
     [1050, 1086, 1084, 1072, 1085, 1076, 1072] @ asc '' ''"

definition msg_not_found :: ustring where
  "msg_not_found =
     asc '' '' @ [1085, 1077] @ asc '' '' @ [1085, 1072, 1081, 1076, 1077, 1085, 1072]"

definition msg_no_config_dir :: ustring where
  "msg_no_config_dir =
     [1044, 1080, 1088, 1077, 1082, 1090, 1086, 1088, 1080, 1103] @ asc '' '' @ [1082, 1086,
     1085, 1092, 1080, 1075, 1091, 1088, 1072, 1094, 1080, 1081] @ asc '' '' @ [1085, 1077] @
     asc '' '' @ [1089, 1091, 1097, 1077, 1089, 1090, 1074, 1091, 1077, 1090] @ asc '': ''"

definition msg_no_profiles :: ustring where
  "msg_no_profiles =
     [1053, 1077] @ asc '' '' @ [1085, 1072, 1081, 1076, 1077, 1085] @ asc '' '' @ [1085,
     1080] @ asc '' '' @ [1086, 1076, 1080, 1085] @ asc '' '' @ [1087, 1088, 1086, 1092,
     1080, 1083, 1100] @ asc '' WireGuard''"

definition msg_ready :: ustring where
  "msg_ready =
     [1057, 1080, 1089, 1090, 1077, 1084, 1072] @ asc '' '' @ [1075, 1086, 1090, 1086, 1074,
     1072]"

text \<open>
  Names of the configured list are taken to exist without looking at the file system; for
  any other name the configuration file decides, and an error while looking counts as absent.
\<close>

definition check_profile_exists :: "env \<Rightarrow> ustring \<Rightarrow> bool" where
  "check_profile_exists e profile_name =
     (if profile_name \<in> set (profiles e) then True
      else (case conf_exists e profile_name of
              Exists b \<Rightarrow> b
            | ExistsPermissionError \<Rightarrow> False
            | ExistsError \<Rightarrow> False))"

definition validate_profile :: "env \<Rightarrow> ustring \<Rightarrow> bool \<times> ustring" where
  "validate_profile e profile_name =
     (if \<not> check_profile_exists e profile_name
      then (False, msg_profile @ profile_name @ msg_not_exists)
      else (case conf_read_text e profile_name of
              Content content \<Rightarrow>
                if \<not> str_in (asc ''[Interface]'') content then (False, msg_no_interface)
                else (True, asc ''OK'')
            | ReadPermissionError \<Rightarrow>
                if profile_name \<in> set (profiles e) then (True, msg_std_profile)
                else (True, msg_assume_valid)
            | ReadFileNotFound \<Rightarrow>
                if profile_name \<in> set (profiles e) then (True, msg_std_profile)
                else (True, msg_assume_valid)
            | ReadError msg \<Rightarrow> (False, msg_read_error @ msg)))"

section \<open>Status parser\<close>

datatype ProfileStatus = ACTIVE | INACTIVE | ERROR | UNKNOWN

text \<open>
  \<open>xs[1]\<close> of a split line.  The lines that reach it contain the marker in their lowered
  form.  Lowering creates no colon (an ASCII character is lowered to a colon only if it is
  one, and the lowercase of no character beyond ASCII contains one), so the line has a
  colon, the list has two fields and Python's IndexError cannot arise (lemmas
  \<open>marker_has_field\<close> and \<open>transfer_marker_has_field\<close> below, for every character
  database whose lowercase of a character beyond ASCII contains no colon); the last case
  only makes the function total.
\<close>

definition field1 :: "ustring list \<Rightarrow> ustring" where
  "field1 xs = (case xs of _ # x # _ \<Rightarrow> x | _ \<Rightarrow> [])"

text \<open>The inner loop of \<open>get_active_profile\<close>: the first profile whose lowered name is in the lowered interface text.\<close>

fun match_profile :: "unicode \<Rightarrow> ustring list \<Rightarrow> ustring \<Rightarrow> ustring option" where
  "match_profile db [] interface = None"
| "match_profile db (profile # rest) interface =
     (if str_in (lower db profile) (lower db interface) then Some profile
      else match_profile db rest interface)"

text \<open>The outer loop, over the lines of the status output.\<close>

fun scan_lines :: "unicode \<Rightarrow> ustring list \<Rightarrow> ustring list \<Rightarrow> ustring option" where
  "scan_lines db ps [] = None"
| "scan_lines db ps (line # rest) =
     (if str_in (asc ''interface:'') (lower db line)
      then (case match_profile db ps (strip db (field1 (split_on colon line))) of
              Some profile \<Rightarrow> Some profile
            | None \<Rightarrow> scan_lines db ps rest)
      else scan_lines db ps rest)"

definition get_active_profile :: "env \<Rightarrow> mstate \<Rightarrow> ustring option \<times> mstate" where
  "get_active_profile e st =
     (case run_command_with_retry e [asc ''wg'', asc ''show''] timeout_wg_show None st of
        ((success, output), st') \<Rightarrow>
          if \<not> success then (None, st')
          else (let found = scan_lines (udb e) (profiles e) (split_on newline (strip (udb e) output))
                in (found, st'\<lparr>active_profile := found\<rparr>)))"

definition get_profile_status :: "env \<Rightarrow> ustring \<Rightarrow> mstate \<Rightarrow> ProfileStatus \<times> mstate" where
  "get_profile_status e profile_name st =
     (case get_active_profile e st of
        (active, st') \<Rightarrow>
          if active = Some profile_name then (ACTIVE, st')
          else if \<not> check_profile_exists e profile_name then (ERROR, st')
          else (INACTIVE, st'))"

section \<open>Activation orchestrator\<close>

definition activate_profile_internal :: "env \<Rightarrow> ustring \<Rightarrow> mstate \<Rightarrow> (bool \<times> ustring) \<times> mstate" where
  "activate_profile_internal e profile_name st =
     run_command_with_retry e [asc ''wg-quick'', asc ''up'', profile_name] timeout_wg_quick None st"

definition deactivate_profile :: "env \<Rightarrow> ustring \<Rightarrow> mstate \<Rightarrow> (bool \<times> ustring) \<times> mstate" where
  "deactivate_profile e profile_name st =
     run_command_with_retry e [asc ''wg-quick'', asc ''down'', profile_name] timeout_wg_quick None st"

text \<open>The loop of \<open>turn_off_all\<close>: one deactivation per name, each outcome appended to \<open>operations\<close>.\<close>

fun deactivate_each :: "env \<Rightarrow> ustring list \<Rightarrow> mstate \<Rightarrow> (ustring \<times> bool \<times> ustring) list \<times> mstate" where
  "deactivate_each e [] st = ([], st)"
| "deactivate_each e (profile # rest) st =
     (case deactivate_profile e profile st of
        ((success, message), st') \<Rightarrow>
          (case deactivate_each e rest st' of
             (operations, st'') \<Rightarrow> ((profile, success, message) # operations, st'')))"

text \<open>The names \<open>turn_off_all\<close> walks through: a literal list in the source.\<close>

definition turn_off_names :: "ustring list" where
  "turn_off_names = [asc ''App'', asc ''bomBox'', asc ''usa'']"

definition turn_off_all :: "env \<Rightarrow> mstate \<Rightarrow> (bool \<times> ustring) \<times> mstate" where
  "turn_off_all e st =
     (case deactivate_each e turn_off_names st of
        (operations, st') \<Rightarrow>
          (let failed = filter (\<lambda>op. \<not> fst (snd op)) operations
           in if failed \<noteq> []
              then ((False, msg_off_errors @ join (asc '', '') (map (\<lambda>(p, s, m). p @ asc '': '' @ m) failed)), st')
              else ((True, msg_all_off), st'\<lparr>active_profile := None\<rparr>)))"

text \<open>First loop of \<open>activate_profile\<close>: the other configured profiles that are active now.\<close>

fun profiles_to_deactivate :: "env \<Rightarrow> ustring \<Rightarrow> ustring list \<Rightarrow> mstate \<Rightarrow> ustring list \<times> mstate" where
  "profiles_to_deactivate e profile_name [] st = ([], st)"
| "profiles_to_deactivate e profile_name (profile # rest) st =
     (if profile \<noteq> profile_name
      then (case get_profile_status e profile st of
              (current, st') \<Rightarrow>
                (case profiles_to_deactivate e profile_name rest st' of
                   (found, st'') \<Rightarrow> (if current = ACTIVE then profile # found else found, st'')))
      else profiles_to_deactivate e profile_name rest st)"

text \<open>Second loop: deactivate them, going on after a failure.\<close>

fun deactivate_others :: "env \<Rightarrow> ustring list \<Rightarrow> mstate \<Rightarrow> mstate" where
  "deactivate_others e [] st = st"
| "deactivate_others e (profile # rest) st =
     (case deactivate_profile e profile st of (_, st') \<Rightarrow> deactivate_others e rest st')"

definition activate_profile :: "env \<Rightarrow> ustring \<Rightarrow> mstate \<Rightarrow> (bool \<times> ustring) \<times> mstate" where
  "activate_profile e profile_name st =
     (if \<not> check_profile_exists e profile_name
      then ((False, msg_profile @ profile_name @ msg_not_exists), st)
      else (case validate_profile e profile_name of
        (valid, msg) \<Rightarrow>
          if \<not> valid then ((False, msg_profile @ profile_name @ msg_invalid @ msg), st)
          else (case get_profile_status e profile_name st of
            (current_status, st1) \<Rightarrow>
              if current_status = ACTIVE
              then ((True, msg_profile @ profile_name @ msg_already_active), st1)
              else (case profiles_to_deactivate e profile_name (profiles e) st1 of
                (others, st2) \<Rightarrow>
                  (let st3 = deactivate_others e others st2
                   in (case activate_profile_internal e profile_name st3 of
                         ((success, message), st4) \<Rightarrow>
                           ((success, message),
                            if success then st4\<lparr>active_profile := Some profile_name\<rparr> else st4)))))))"

section \<open>System readiness\<close>

text \<open>The list \<open>checks\<close> of problems found, in the order the source appends them.\<close>

definition system_checks :: "env \<Rightarrow> ustring list" where
  "system_checks e =
     map (\<lambda>cmd. msg_command @ cmd @ msg_not_found)
         (filter (\<lambda>cmd. \<not> which e cmd) [asc ''wg'', asc ''wg-quick'', asc ''pkexec''])
     @ (if \<not> config_dir_exists e then [msg_no_config_dir @ asc ''/etc/wireguard''] else [])
     @ (if \<not> list_ex (check_profile_exists e) (profiles e) then [msg_no_profiles] else [])"

definition check_system_ready :: "env \<Rightarrow> bool \<times> ustring" where
  "check_system_ready e =
     (let checks = system_checks e
      in if checks \<noteq> [] then (False, join (asc ''; '') checks) else (True, msg_ready))"

section \<open>Example environments\<close>

text \<open>
  A character database that knows ASCII only: beyond ASCII no character is cased, a space
  or a digit.  On ASCII text every database gives the same results (lemma \<open>lower_ascii_text\<close>
  below), so for the examples, which are ASCII but for the messages, the choice is immaterial.
\<close>

definition ascii_only :: unicode where
  "ascii_only = \<lparr>lower_ext = (\<lambda>s i. [s ! i]), isspace_ext = (\<lambda>c. False), decimal_ext = (\<lambda>c. None)\<rparr>"

text \<open>
  A part of the character database: the Cyrillic capitals U+0410..U+042F, whose small
  letters are 32 further; the no-break space U+00A0; the full-width digits U+FF10..U+FF19.
\<close>

definition db_sample :: unicode where
  "db_sample =
     \<lparr>lower_ext = (\<lambda>s i. if 1040 \<le> s ! i \<and> s ! i \<le> 1071 then [s ! i + 32] else [s ! i]),
      isspace_ext = (\<lambda>c. c = 160),
      decimal_ext = (\<lambda>c. if 65296 \<le> c \<and> c \<le> 65305 then Some (c - 65296) else None)\<rparr>"

text \<open>
  The default profile list on a machine where \<open>wg show\<close> reports the interface
  \<open>wg-bombox\<close>, every other command succeeds, and no configuration file can be read.
\<close>

definition env_bombox :: env where
  "env_bombox =
     \<lparr>profiles = [asc ''App'', asc ''bomBox'', asc ''usa''],
      subprocess_run = (\<lambda>k argv.
         if argv = [asc ''pkexec'', asc ''wg'', asc ''show'']
         then Completed 0 (asc ''interface: wg-bombox'' @ [newline] @ asc ''  public key: xxx'') []
         else Completed 0 [] []),
      conf_exists = (\<lambda>name. Exists False),
      conf_read_text = (\<lambda>name. ReadPermissionError),
      which = (\<lambda>cmd. True),
      config_dir_exists = True,
      udb = ascii_only\<rparr>"

text \<open>The same machine with every command failing with an unclassified error.\<close>

definition env_failing :: env where
  "env_failing = env_bombox\<lparr>subprocess_run := (\<lambda>k argv. Completed 1 [] (asc ''Unable to access interface''))\<rparr>"

definition st0 :: mstate where
  "st0 = \<lparr>calls = [], active_profile = None\<rparr>"

text \<open>
  A machine whose first two commands fail with an unclassified error and whose later
  commands succeed; one whose first command is not found; one whose first command runs
  past the timeout; one where every command is refused with "Permission denied".
\<close>

definition env_flaky :: env where
  "env_flaky = env_bombox\<lparr>subprocess_run := (\<lambda>k argv.
     if k < 2 then Completed 1 [] (asc ''RTNETLINK answers: Device or resource busy'')
     else Completed 0 (asc ''done'') [])\<rparr>"

definition env_not_found :: env where
  "env_not_found = env_bombox\<lparr>subprocess_run := (\<lambda>k argv.
     if k = 0 then Completed 127 [] (asc ''pkexec: wg-quick: Command Not Found'')
     else Completed 0 (asc ''done'') [])\<rparr>"

definition env_timeout :: env where
  "env_timeout = env_bombox\<lparr>subprocess_run := (\<lambda>k argv.
     if k = 0 then TimeoutExpired else Completed 0 (asc ''done'') [])\<rparr>"

definition env_denied :: env where
  "env_denied = env_bombox\<lparr>subprocess_run := (\<lambda>k argv. Completed 1 [] (asc ''Permission denied''))\<rparr>"

section \<open>Active-profile derivation as the specification words it\<close>

text \<open>
  The token after the first colon of a line: the text between that colon and the next one
  (or the end of the line), trimmed of whitespace.
\<close>

definition interface_token :: "unicode \<Rightarrow> ustring \<Rightarrow> ustring" where
  "interface_token db line =
     strip db (takeWhile (\<lambda>c. c \<noteq> colon) (drop 1 (dropWhile (\<lambda>c. c \<noteq> colon) line)))"

text \<open>
  What one line yields: if it contains the interface marker in any letter case, the first
  configured name whose lowered form is a substring of the lowered token.
\<close>

definition line_match :: "unicode \<Rightarrow> ustring list \<Rightarrow> ustring \<Rightarrow> ustring option" where
  "line_match db ps line =
     (if str_in (asc ''interface:'') (lower db line)
      then find (\<lambda>p. str_in (lower db p) (lower db (interface_token db line))) ps
      else None)"

text \<open>The derivation: the match of the first line, in order, that yields one; none otherwise.\<close>

definition derive_active_spec :: "unicode \<Rightarrow> ustring list \<Rightarrow> ustring \<Rightarrow> ustring option" where
  "derive_active_spec db ps output =
     (case List.map_filter (line_match db ps) (split_on newline (strip db output)) of
        [] \<Rightarrow> None
      | p # _ \<Rightarrow> Some p)"

text \<open>A machine whose only interface is \<open>wg0\<close>.\<close>

definition env_wg0 :: env where
  "env_wg0 = env_bombox\<lparr>subprocess_run := (\<lambda>k argv.
     Completed 0 (asc ''interface: wg0'' @ [newline] @ asc ''public key: xxx'') [])\<rparr>"

text \<open>
  A manager configured with the one profile \<open>Dom\<close> written in Cyrillic (U+0414 U+043E
  U+043C), on a machine whose interface is the same word in small letters.
\<close>

definition env_dom :: env where
  "env_dom = env_bombox
     \<lparr>profiles := [[1044, 1086, 1084]],
      subprocess_run := (\<lambda>k argv. Completed 0 (asc ''interface: '' @ [1076, 1086, 1084]) []),
      udb := db_sample\<rparr>"

text \<open>
  A machine on which \<open>App\<close> is up while its configuration file, readable, has lost the
  \<open>[Interface]\<close> section; and a manager configured with two profiles of its own on a
  machine where every command succeeds.
\<close>

definition env_stale :: env where
  "env_stale = env_bombox
     \<lparr>subprocess_run := (\<lambda>k argv. Completed 0 (asc ''interface: App'') []),
      conf_exists := (\<lambda>name. Exists True),
      conf_read_text := (\<lambda>name. Content (asc ''PrivateKey = xxx''))\<rparr>"

definition env_custom :: env where
  "env_custom = env_bombox
     \<lparr>profiles := [asc ''home'', asc ''work''],
      subprocess_run := (\<lambda>k argv. Completed 0 [] [])\<rparr>"

section \<open>Floating point\<close>

text \<open>
  A Python float is an IEEE 754 double: a finite value (a rational; the sign of zero is
  not kept, since nothing here can observe it), an infinity (its sign is not kept either:
  \<open>int\<close> raises on both), or a NaN.
\<close>

datatype pyfloat = Finite rat | Infinity | NaN

text \<open>\<open>\<lfloor>log\<^sub>2 q\<rfloor>\<close> of a positive rational, from the bit lengths of numerator and denominator.\<close>

definition ilog2 :: "rat \<Rightarrow> int" where
  "ilog2 q =
     (case quotient_of q of
        (a, b) \<Rightarrow> (let l = bitlen a - bitlen b in if 2 powi l \<le> q then l else l - 1))"

text \<open>Rounding to the nearest integer, a tie going to the even one.\<close>

definition round_half_even :: "rat \<Rightarrow> int" where
  "round_half_even q =
     (let f = \<lfloor>q\<rfloor>; r = q - of_int f
      in if r < 1 / 2 then f else if 1 / 2 < r then f + 1 else if even f then f else f + 1)"

text \<open>
  The double nearest to a positive rational: 53 significant bits, the exponent of the
  last place at least \<open>-1074\<close> (the subnormal spacing), infinity from \<open>2^1024\<close> on.
\<close>

definition round_pos :: "rat \<Rightarrow> pyfloat" where
  "round_pos q =
     (let e = max (ilog2 q - 52) (- 1074);
          v = of_int (round_half_even (q / 2 powi e)) * 2 powi e
      in if 2 ^ 1024 \<le> v then Infinity else Finite v)"

definition round_double :: "rat \<Rightarrow> pyfloat" where
  "round_double q =
     (if q = 0 then Finite 0
      else if 0 < q then round_pos q
      else (case round_pos (- q) of Finite v \<Rightarrow> Finite (- v) | x \<Rightarrow> x))"

text \<open>The product of two floats, rounded once.\<close>

fun fmul :: "pyfloat \<Rightarrow> pyfloat \<Rightarrow> pyfloat" where
  "fmul (Finite a) (Finite b) = round_double (a * b)"
| "fmul NaN _ = NaN"
| "fmul _ NaN = NaN"
| "fmul Infinity (Finite b) = (if b = 0 then NaN else Infinity)"
| "fmul (Finite a) Infinity = (if a = 0 then NaN else Infinity)"
| "fmul Infinity Infinity = Infinity"

text \<open>\<open>int(x)\<close>: truncation toward zero; OverflowError on an infinity and ValueError on a NaN, both as \<open>None\<close>.\<close>

definition py_int :: "pyfloat \<Rightarrow> int option" where
  "py_int x = (case x of Finite q \<Rightarrow> Some (if 0 \<le> q then \<lfloor>q\<rfloor> else - \<lfloor>- q\<rfloor>) | _ \<Rightarrow> None)"

subsection \<open>Reading a float from text\<close>

definition is_digit :: "nat \<Rightarrow> bool" where
  "is_digit c \<longleftrightarrow> 48 \<le> c \<and> c \<le> 57"

definition digit_val :: "nat \<Rightarrow> nat" where
  "digit_val c = c - 48"

definition digits_val :: "ustring \<Rightarrow> nat" where
  "digits_val ds = foldl (\<lambda>acc c. acc * 10 + digit_val c) 0 ds"

text \<open>
  Before it reads a string that is not all ASCII, \<open>float()\<close> maps each whitespace
  character to a blank and each decimal digit to its ASCII digit; the characters below
  127 stay.  Any other character is replaced by a question mark, at which the text is cut:
  the text then ends with a character that no float is written with, which is
  ValueError, here \<open>None\<close>.  A string that is all ASCII is read as it is.
\<close>

definition is_ascii :: "ustring \<Rightarrow> bool" where
  "is_ascii s \<longleftrightarrow> list_all (\<lambda>c. c < 128) s"

fun transform_chars :: "unicode \<Rightarrow> ustring \<Rightarrow> ustring option" where
  "transform_chars db [] = Some []"
| "transform_chars db (c # cs) =
     (case (if c < 127 then Some c
            else if is_space db c then Some 32
            else if c < 128 then None
            else map_option (\<lambda>d. 48 + d) (decimal_ext db c)) of
        None \<Rightarrow> None
      | Some a \<Rightarrow> map_option (Cons a) (transform_chars db cs))"

definition to_ascii :: "unicode \<Rightarrow> ustring \<Rightarrow> ustring option" where
  "to_ascii db s = (if is_ascii s then Some s else transform_chars db s)"

text \<open>
  The whitespace that \<open>float()\<close> skips at both ends of the ASCII text: blank, tab, line
  feed, vertical tab, form feed and carriage return (not 28..31, which \<open>strip()\<close> removes).
\<close>

definition is_c_space :: "nat \<Rightarrow> bool" where
  "is_c_space c \<longleftrightarrow> c \<in> set [9, 10, 11, 12, 13, 32]"

definition strip_c :: "ustring \<Rightarrow> ustring" where
  "strip_c s = rev (dropWhile is_c_space (rev (dropWhile is_c_space s)))"

text \<open>
  Underscores are dropped when each stands between two digits; \<open>None\<close> (ValueError)
  otherwise.  \<open>prev\<close> is the character before, NUL at the start.
\<close>

fun drop_underscores :: "nat \<Rightarrow> ustring \<Rightarrow> ustring option" where
  "drop_underscores prev [] = (if prev = underscore then None else Some [])"
| "drop_underscores prev (c # cs) =
     (if c = underscore
      then (if is_digit prev then drop_underscores c cs else None)
      else if prev = underscore \<and> \<not> is_digit c then None
      else map_option (Cons c) (drop_underscores c cs))"

text \<open>An optional sign (\<open>-\<close> is 45, \<open>+\<close> is 43): whether it is a minus, and the rest.\<close>

definition take_sign :: "ustring \<Rightarrow> bool \<times> ustring" where
  "take_sign s =
     (case s of
        c # cs \<Rightarrow> if c = 45 then (True, cs) else if c = 43 then (False, cs) else (False, s)
      | [] \<Rightarrow> (False, s))"

text \<open>
  The exponent part after the digits: empty, or \<open>e\<close> (101) or \<open>E\<close> (69), an optional sign
  and at least one digit up to the end of the text.
\<close>

definition parse_exponent :: "ustring \<Rightarrow> int option" where
  "parse_exponent s =
     (case s of
        [] \<Rightarrow> Some 0
      | c # cs \<Rightarrow>
          if c = 101 \<or> c = 69
          then (case take_sign cs of
                  (neg, ds) \<Rightarrow>
                    if ds \<noteq> [] \<and> list_all is_digit ds
                    then Some (if neg then - int (digits_val ds) else int (digits_val ds))
                    else None)
          else None)"

text \<open>
  The decimal grammar of \<open>float()\<close>: digits with an optional point, or a point followed
  by digits, then the exponent part.  The result is the number written by all the digits
  and the power of ten it is scaled by.
\<close>

definition parse_decimal :: "ustring \<Rightarrow> (nat \<times> int) option" where
  "parse_decimal s =
     (let ip = takeWhile is_digit s; r = dropWhile is_digit s;
          has_point = (r \<noteq> [] \<and> hd r = point);
          fp = (if has_point then takeWhile is_digit (tl r) else []);
          r' = (if has_point then dropWhile is_digit (tl r) else r)
      in if ip = [] \<and> fp = [] then None
         else (case parse_exponent r' of
                 None \<Rightarrow> None
               | Some ex \<Rightarrow> Some (digits_val (ip @ fp), ex - int (length fp))))"

definition dec_value :: "nat \<times> int \<Rightarrow> rat" where
  "dec_value d = of_nat (fst d) * 10 powi (snd d)"

text \<open>
  \<open>float(s)\<close> for a string.  What is read is the ASCII text above: underscores between
  digits are dropped, whitespace is skipped at both ends, a sign is read; then a decimal
  number, or \<open>inf\<close>, \<open>infinity\<close> or \<open>nan\<close> in any letter case.  \<open>None\<close> is ValueError.
\<close>

definition float_from_ascii :: "ustring \<Rightarrow> pyfloat option" where
  "float_from_ascii a =
     (case drop_underscores 0 a of
        None \<Rightarrow> None
      | Some t \<Rightarrow>
          (case take_sign (strip_c t) of
             (neg, u) \<Rightarrow>
               if map lower_ascii u = asc ''inf'' \<or> map lower_ascii u = asc ''infinity''
               then Some Infinity
               else if map lower_ascii u = asc ''nan'' then Some NaN
               else (case parse_decimal u of
                       None \<Rightarrow> None
                     | Some d \<Rightarrow>
                         Some (round_double (if neg then - dec_value d else dec_value d)))))"

definition py_float :: "unicode \<Rightarrow> ustring \<Rightarrow> pyfloat option" where
  "py_float db s = (case to_ascii db s of None \<Rightarrow> None | Some a \<Rightarrow> float_from_ascii a)"

subsection \<open>Byte sizes\<close>

text \<open>\<open>s.replace(old, '')\<close>: every occurrence of \<open>old\<close>, found from the left without overlap, is removed.\<close>

function remove_all :: "ustring \<Rightarrow> ustring \<Rightarrow> ustring" where
  "remove_all old [] = []"
| "remove_all old (c # cs) =
     (if old \<noteq> [] \<and> prefix old (c # cs)
      then remove_all old (drop (length old) (c # cs))
      else c # remove_all old cs)"
  by pat_completeness auto
termination
  by (relation "measure (\<lambda>(old, s). length s)") (auto simp: neq_Nil_conv)

text \<open>
  \<open>int(float(text) * f1 * f2 ...)\<close> inside the \<open>try\<close>: any exception gives 0.
\<close>

definition to_bytes :: "unicode \<Rightarrow> ustring \<Rightarrow> nat list \<Rightarrow> int" where
  "to_bytes db text factors =
     (case py_float db text of
        None \<Rightarrow> 0
      | Some x \<Rightarrow>
          (case py_int (foldl (\<lambda>acc f. fmul acc (Finite (of_nat f))) x factors) of
             None \<Rightarrow> 0
           | Some n \<Rightarrow> n))"

definition parse_transfer :: "unicode \<Rightarrow> ustring \<Rightarrow> int" where
  "parse_transfer db value_str0 =
     (let value_str = lower db value_str0
      in if str_in (asc ''kib'') value_str
         then to_bytes db (strip db (remove_all (asc ''kib'') value_str)) [1024]
         else if str_in (asc ''mib'') value_str
         then to_bytes db (strip db (remove_all (asc ''mib'') value_str)) [1024, 1024]
         else if str_in (asc ''gib'') value_str
         then to_bytes db (strip db (remove_all (asc ''gib'') value_str)) [1024, 1024, 1024]
         else if str_in (asc ''kb'') value_str
         then to_bytes db (strip db (remove_all (asc ''kb'') value_str)) [1000]
         else if str_in (asc ''mb'') value_str
         then to_bytes db (strip db (remove_all (asc ''mb'') value_str)) [1000, 1000]
         else if str_in (asc ''gb'') value_str
         then to_bytes db (strip db (remove_all (asc ''gb'') value_str)) [1000, 1000, 1000]
         else to_bytes db value_str [])"

section \<open>Profile information\<close>

text \<open>The configuration file of a profile, \<open>config_dir / f'{name}.conf'\<close>, kept by the name it is made from.\<close>

datatype conf_path = ConfFile ustring

record ProfileInfo =
  pi_name :: ustring
  pi_status :: ProfileStatus
  pi_config_path :: conf_path
  interface_name :: ustring
  public_key :: ustring
  endpoint :: ustring
  transfer_rx :: int
  transfer_tx :: int
  last_handshake :: ustring

text \<open>\<open>s.split()\<close>: the maximal runs of characters that are not whitespace; \<open>cur\<close> is the run being read, reversed.\<close>

fun split_ws_from :: "unicode \<Rightarrow> ustring \<Rightarrow> ustring \<Rightarrow> ustring list" where
  "split_ws_from db cur [] = (if cur = [] then [] else [rev cur])"
| "split_ws_from db cur (c # cs) =
     (if is_space db c
      then (if cur = [] then split_ws_from db [] cs else rev cur # split_ws_from db [] cs)
      else split_ws_from db (c # cur) cs)"

definition split_ws :: "unicode \<Rightarrow> ustring \<Rightarrow> ustring list" where
  "split_ws db s = split_ws_from db [] s"

text \<open>
  \<open>part.split()[0]\<close>.  It is reached only for a part that contains a word, so Python's
  IndexError cannot arise (lemmas \<open>received_has_first_word\<close> and \<open>sent_has_first_word\<close>
  below); the last case only makes the function total.
\<close>

definition first_word :: "unicode \<Rightarrow> ustring \<Rightarrow> ustring" where
  "first_word db s = (case split_ws db s of w # _ \<Rightarrow> w | [] \<Rightarrow> [])"

text \<open>
  The loop over the lines of the status output that fills the transfer counters; a later
  transfer line overwrites what an earlier one set.
\<close>

fun transfer_lines :: "unicode \<Rightarrow> ustring list \<Rightarrow> int \<times> int \<Rightarrow> int \<times> int" where
  "transfer_lines db [] acc = acc"
| "transfer_lines db (line # rest) (rx, tx) =
     (if str_in (asc ''transfer:'') (lower db line)
      then (let parts = split_on comma (strip db (field1 (split_on colon line)))
            in if 2 \<le> length parts
               then (let rx_part = strip db (parts ! 0);
                         tx_part = strip db (parts ! 1);
                         rx' = (if str_in (asc ''received'') rx_part
                                then parse_transfer db (first_word db rx_part) else rx);
                         tx' = (if str_in (asc ''sent'') tx_part
                                then parse_transfer db (first_word db tx_part) else tx)
                     in transfer_lines db rest (rx', tx'))
               else transfer_lines db rest (rx, tx))
      else transfer_lines db rest (rx, tx))"

text \<open>The body of the loop of \<open>get_all_profiles_info\<close> for one profile.\<close>

definition profile_info :: "env \<Rightarrow> ustring \<Rightarrow> mstate \<Rightarrow> ProfileInfo \<times> mstate" where
  "profile_info e profile st =
     (case get_profile_status e profile st of
        (status, st1) \<Rightarrow>
          (let info = \<lparr>pi_name = profile, pi_status = status, pi_config_path = ConfFile profile,
                       interface_name = [], public_key = [], endpoint = [],
                       transfer_rx = 0, transfer_tx = 0, last_handshake = []\<rparr>
           in if status = ACTIVE
              then (case run_command_with_retry e [asc ''wg'', asc ''show''] timeout_wg_show None st1 of
                      ((success, output), st2) \<Rightarrow>
                        if success
                        then (case transfer_lines (udb e) (split_on newline (strip (udb e) output)) (0, 0) of
                                (rx, tx) \<Rightarrow> (info\<lparr>transfer_rx := rx, transfer_tx := tx\<rparr>, st2))
                        else (info, st2))
              else (info, st1)))"

text \<open>
  The loop itself: the dictionary as the list of its assignments in order (a later
  assignment to the same key wins).  The copy kept in \<open>_profiles_cache\<close> is not modelled;
  no operation here reads it.
\<close>

fun profile_infos :: "env \<Rightarrow> ustring list \<Rightarrow> mstate \<Rightarrow> (ustring \<times> ProfileInfo) list \<times> mstate" where
  "profile_infos e [] st = ([], st)"
| "profile_infos e (profile # rest) st =
     (case profile_info e profile st of
        (info, st1) \<Rightarrow>
          (case profile_infos e rest st1 of
             (infos, st2) \<Rightarrow> ((profile, info) # infos, st2)))"

definition get_all_profiles_info :: "env \<Rightarrow> mstate \<Rightarrow> (ustring \<rightharpoonup> ProfileInfo) \<times> mstate" where
  "get_all_profiles_info e st =
     (case profile_infos e (profiles e) st of (infos, st') \<Rightarrow> (map_of (rev infos), st'))"

text \<open>A machine on which \<open>App\<close> is up and has moved some traffic.\<close>

definition env_traffic :: env where
  "env_traffic = env_bombox\<lparr>subprocess_run := (\<lambda>k argv.
     Completed 0 (asc ''interface: App'' @ [newline] @
                  asc ''  transfer: 1.23 MiB received, 456.78 KiB sent'') [])\<rparr>"

section \<open>Byte sizes as the specification words them\<close>


text \<open>A number written with digits and an optional fraction after a point, and its value.\<close>

definition number_text :: "ustring \<Rightarrow> ustring \<Rightarrow> ustring" where
  "number_text ip fp = ip @ (if fp = [] then [] else point # fp)"

definition number_value :: "ustring \<Rightarrow> ustring \<Rightarrow> rat" where
  "number_value ip fp = of_nat (digits_val (ip @ fp)) / 10 ^ length fp"

text \<open>
  The factors as the parser applies them, one multiplication after the other, and the
  double that results: the double nearest to the number, multiplied by each factor in turn
  with one rounding per product.
\<close>

definition factor_list :: "ustring \<Rightarrow> nat list option" where
  "factor_list u =
     map_of [([], []), (asc ''kib'', [1024]), (asc ''mib'', [1024, 1024]), (asc ''gib'', [1024, 1024, 1024]),
             (asc ''kb'', [1000]), (asc ''mb'', [1000, 1000]), (asc ''gb'', [1000, 1000, 1000])] u"

definition float_product :: "rat \<Rightarrow> nat list \<Rightarrow> pyfloat" where
  "float_product q fs = foldl (\<lambda>acc f. fmul acc (Finite (of_nat f))) (round_double q) fs"

text \<open>The default machine with the second deactivation (of \<open>bomBox\<close>) failing for good.\<close>

definition env_stuck :: env where
  "env_stuck = env_bombox\<lparr>subprocess_run := (\<lambda>k argv.
     if argv = [asc ''pkexec'', asc ''wg-quick'', asc ''down'', asc ''bomBox'']
     then Completed 1 [] (asc ''wg-quick: bomBox is not a WireGuard interface'')
     else Completed 0 [] [])\<rparr>"

section \<open>Properties of the registry and of status derivation\<close>

lemma match_profile_mem: "match_profile db ps i = Some p \<Longrightarrow> p \<in> set ps"
  by (induction ps) (auto split: if_splits)

lemma scan_lines_mem: "scan_lines db ps ls = Some p \<Longrightarrow> p \<in> set ps"
  by (induction ls) (auto split: if_splits option.splits dest: match_profile_mem)

lemma get_active_profile_mem:
  "fst (get_active_profile e st) = Some p \<Longrightarrow> p \<in> set (profiles e)"
  by (auto simp: get_active_profile_def Let_def split: prod.splits if_splits dest: scan_lines_mem)

lemma configured_exists: "name \<in> set (profiles e) \<Longrightarrow> check_profile_exists e name"
  by (simp add: check_profile_exists_def)

text \<open>
  Claim C6.  The status of a name is ACTIVE when the freshly derived active profile is that
  name, otherwise ERROR when the existence check fails, otherwise INACTIVE.  A name that
  fails the existence check is never the derived profile (which is always a configured
  name), so it is reported as ERROR and never as INACTIVE.
\<close>

theorem get_profile_status_cases:
  "fst (get_profile_status e name st) =
     (if fst (get_active_profile e st) = Some name then ACTIVE
      else if \<not> check_profile_exists e name then ERROR
      else INACTIVE)
   \<and> (\<not> check_profile_exists e name \<longrightarrow>
        fst (get_active_profile e st) \<noteq> Some name \<and> fst (get_profile_status e name st) = ERROR)"
  using get_active_profile_mem [of e st name] configured_exists [of name e]
  by (auto simp: get_profile_status_def split: prod.splits)

theorem get_profile_status_cases_witness:
  "\<not> check_profile_exists env_bombox (asc ''ghost'')
   \<and> fst (get_profile_status env_bombox (asc ''ghost'') st0) = ERROR
   \<and> fst (get_profile_status env_bombox (asc ''bomBox'') st0) = ACTIVE
   \<and> fst (get_profile_status env_bombox (asc ''usa'') st0) = INACTIVE"
proof -
  have h: "\<not> check_profile_exists env_bombox (asc ''ghost'')" by code_simp
  have a: "fst (get_active_profile env_bombox st0) = Some (asc ''bomBox'')" by code_simp
  have u: "check_profile_exists env_bombox (asc ''usa'')" by code_simp
  show ?thesis
    using h a u get_profile_status_cases [of env_bombox "asc ''ghost''" st0]
      get_profile_status_cases [of env_bombox "asc ''bomBox''" st0]
      get_profile_status_cases [of env_bombox "asc ''usa''" st0]
    by simp
qed

text \<open>
  Claim C8.  Activating a name that fails the existence check returns failure with the
  message "Profil' <name> ne sushchestvuet" (does not exist) and leaves the state as it
  was: no command is run.
\<close>

theorem activate_nonexistent:
  assumes "\<not> check_profile_exists e name"
  shows "activate_profile e name st = ((False, msg_profile @ name @ msg_not_exists), st)
         \<and> calls (snd (activate_profile e name st)) = calls st"
  using assms by (simp add: activate_profile_def)

theorem activate_nonexistent_witness:
  "\<not> check_profile_exists env_bombox (asc ''ghost'')
   \<and> activate_profile env_bombox (asc ''ghost'') st0 = ((False, msg_profile @ asc ''ghost'' @ msg_not_exists), st0)
   \<and> calls (snd (activate_profile env_bombox (asc ''ghost'') st0)) = []"
proof -
  have h: "\<not> check_profile_exists env_bombox (asc ''ghost'')" by code_simp
  show ?thesis using h activate_nonexistent [OF h, of st0] by (simp add: st0_def)
qed

text \<open>
  Claim C9.  A configured name passes the existence check whatever the file system says,
  so its status is never ERROR; and with a non-empty configured list the "no profile
  found" entry is never among the readiness problems.
\<close>

theorem configured_profile_always_exists:
  "(name \<in> set (profiles e) \<longrightarrow>
      check_profile_exists (e\<lparr>conf_exists := f\<rparr>) name
      \<and> fst (get_profile_status e name st) \<noteq> ERROR)
   \<and> (profiles e \<noteq> [] \<longrightarrow> msg_no_profiles \<notin> set (system_checks e))"
proof -
  have "msg_no_profiles \<notin> set (system_checks e)" if "profiles e \<noteq> []"
  proof -
    from that obtain p where "p \<in> set (profiles e)" by (cases "profiles e") auto
    then have "list_ex (check_profile_exists e) (profiles e)"
      using configured_exists by (auto simp: list_ex_iff)
    then show ?thesis
      by (auto simp: system_checks_def msg_no_profiles_def msg_command_def msg_no_config_dir_def)
  qed
  moreover have "fst (get_profile_status e name st) \<noteq> ERROR" if "name \<in> set (profiles e)"
    using that configured_exists [of name e]
    by (auto simp: get_profile_status_def split: prod.splits)
  ultimately show ?thesis
    by (simp add: check_profile_exists_def)
qed

theorem configured_profile_always_exists_witness:
  "asc ''usa'' \<in> set (profiles env_bombox) \<and> profiles env_bombox \<noteq> []
   \<and> check_profile_exists (env_bombox\<lparr>conf_exists := (\<lambda>n. ExistsPermissionError)\<rparr>) (asc ''usa'')
   \<and> fst (get_profile_status env_bombox (asc ''usa'') st0) \<noteq> ERROR
   \<and> msg_no_profiles \<notin> set (system_checks env_bombox)"
proof -
  have h: "asc ''usa'' \<in> set (profiles env_bombox)" "profiles env_bombox \<noteq> []"
    by (simp_all add: env_bombox_def)
  show ?thesis
    using h configured_profile_always_exists [of "asc ''usa''" env_bombox "\<lambda>n. ExistsPermissionError" st0]
    by simp
qed

text \<open>
  Claim C10.  When the retried status query returns failure, no active profile is derived
  and every configured name is reported INACTIVE.
\<close>

theorem status_query_failure:
  assumes "\<not> fst (fst (run_command_with_retry e [asc ''wg'', asc ''show''] timeout_wg_show None st))"
  shows "fst (get_active_profile e st) = None
         \<and> (\<forall>name \<in> set (profiles e). fst (get_profile_status e name st) = INACTIVE)"
proof -
  have none: "fst (get_active_profile e st) = None"
    using assms by (auto simp: get_active_profile_def split: prod.splits)
  then show ?thesis
    using configured_exists [of _ e]
    by (auto simp: get_profile_status_def split: prod.splits)
qed

theorem status_query_failure_witness:
  "\<not> fst (fst (run_command_with_retry env_failing [asc ''wg'', asc ''show''] timeout_wg_show None st0))
   \<and> fst (get_active_profile env_failing st0) = None
   \<and> fst (get_profile_status env_failing (asc ''App'') st0) = INACTIVE
   \<and> fst (get_profile_status env_failing (asc ''bomBox'') st0) = INACTIVE
   \<and> fst (get_profile_status env_failing (asc ''usa'') st0) = INACTIVE"
proof -
  have h: "\<not> fst (fst (run_command_with_retry env_failing [asc ''wg'', asc ''show''] timeout_wg_show None st0))"
    by code_simp
  have p: "profiles env_failing = [asc ''App'', asc ''bomBox'', asc ''usa'']"
    by (simp add: env_failing_def env_bombox_def)
  show ?thesis
    using h status_query_failure [OF h] by (simp add: p)
qed

section \<open>Properties of the retry policy\<close>

lemma str_in_prefix: "prefix needle hay \<Longrightarrow> str_in needle hay"
  by (cases hay) auto

lemma str_in_append_right: "str_in needle (needle @ rest)"
  by (rule str_in_prefix) simp

lemma retry_loop_state:
  "\<exists>j\<le>n. snd (retry_loop e c t n l st) = st\<lparr>calls := calls st @ replicate j (asc ''pkexec'' # c)\<rparr>"
proof (induction n arbitrary: l st)
  case 0
  show ?case by simp
next
  case (Suc n)
  obtain ok out where o: "outcome e c t (length (calls st)) = (ok, out)" by force
  let ?st' = "st\<lparr>calls := calls st @ [asc ''pkexec'' # c]\<rparr>"
  show ?case
  proof (cases "ok \<or> stops_retry (udb e) out")
    case True
    then have "snd (retry_loop e c t (Suc n) l st) = st\<lparr>calls := calls st @ replicate 1 (asc ''pkexec'' # c)\<rparr>"
      by (auto simp: run_command_def o)
    then show ?thesis by (intro exI[of _ 1]) simp
  next
    case False
    from Suc.IH [of out ?st'] obtain j where j: "j \<le> n"
      "snd (retry_loop e c t n out ?st') = ?st'\<lparr>calls := calls ?st' @ replicate j (asc ''pkexec'' # c)\<rparr>"
      by blast
    have "snd (retry_loop e c t (Suc n) l st) = st\<lparr>calls := calls st @ replicate (Suc j) (asc ''pkexec'' # c)\<rparr>"
      using False j(2) by (simp add: run_command_def o replicate_app_Cons_same)
    with j(1) show ?thesis by (intro exI[of _ "Suc j"]) simp
  qed
qed

text \<open>A failed run: the attempts made all failed, the output is that of the last one, and
  the loop stopped early only on a stop marker.\<close>

lemma retry_loop_failure:
  assumes "0 < n" "\<forall>i<n. \<not> fst (outcome e c t (length (calls st) + i))"
  shows "\<exists>j. 1 \<le> j \<and> j \<le> n
          \<and> snd (retry_loop e c t n l st) = st\<lparr>calls := calls st @ replicate j (asc ''pkexec'' # c)\<rparr>
          \<and> fst (retry_loop e c t n l st) = (False, snd (outcome e c t (length (calls st) + j - 1)))
          \<and> (j < n \<longrightarrow> stops_retry (udb e) (snd (outcome e c t (length (calls st) + j - 1))))"
  using assms
proof (induction n arbitrary: l st)
  case 0
  then show ?case by simp
next
  case (Suc n)
  let ?k = "length (calls st)"
  let ?full = "asc ''pkexec'' # c"
  from Suc.prems(2) have "\<not> fst (outcome e c t (?k + 0))" by blast
  then obtain out where o: "outcome e c t ?k = (False, out)" by (cases "outcome e c t ?k") auto
  let ?st' = "st\<lparr>calls := calls st @ [?full]\<rparr>"
  show ?case
  proof (cases "stops_retry (udb e) out \<or> n = 0")
    case True
    then have "snd (retry_loop e c t (Suc n) l st) = st\<lparr>calls := calls st @ replicate 1 ?full\<rparr>"
      "fst (retry_loop e c t (Suc n) l st) = (False, snd (outcome e c t (?k + 1 - 1)))"
      "1 < Suc n \<longrightarrow> stops_retry (udb e) (snd (outcome e c t (?k + 1 - 1)))"
      by (auto simp: run_command_def o)
    then show ?thesis by (intro exI[of _ 1]) simp
  next
    case False
    then have n: "0 < n" and ns: "\<not> stops_retry (udb e) out" by auto
    have all: "\<forall>i<n. \<not> fst (outcome e c t (length (calls ?st') + i))"
    proof (intro allI impI)
      fix i assume "i < n"
      then have "Suc i < Suc n" by simp
      from Suc.prems(2) [rule_format, OF this]
      have "\<not> fst (outcome e c t (?k + Suc i))" .
      then show "\<not> fst (outcome e c t (length (calls ?st') + i))" by simp
    qed
    from Suc.IH [OF n all, of out] obtain j where j: "1 \<le> j" "j \<le> n"
      "snd (retry_loop e c t n out ?st') = ?st'\<lparr>calls := calls ?st' @ replicate j ?full\<rparr>"
      "fst (retry_loop e c t n out ?st') = (False, snd (outcome e c t (length (calls ?st') + j - 1)))"
      "j < n \<longrightarrow> stops_retry (udb e) (snd (outcome e c t (length (calls ?st') + j - 1)))"
      by blast
    have step: "retry_loop e c t (Suc n) l st = retry_loop e c t n out ?st'"
      using ns by (simp add: run_command_def o)
    have idx: "length (calls ?st') + j - 1 = ?k + Suc j - 1" using j(1) by simp
    have "snd (retry_loop e c t (Suc n) l st) = st\<lparr>calls := calls st @ replicate (Suc j) ?full\<rparr>"
      using j(3) unfolding step by (simp add: replicate_app_Cons_same)
    moreover have "fst (retry_loop e c t (Suc n) l st) = (False, snd (outcome e c t (?k + Suc j - 1)))"
      using j(4) unfolding step idx .
    moreover have "Suc j < Suc n \<longrightarrow> stops_retry (udb e) (snd (outcome e c t (?k + Suc j - 1)))"
      using j(5) unfolding idx by simp
    ultimately show ?thesis using j(2) by (intro exI[of _ "Suc j"]) simp
  qed
qed

lemma stops_retry_markers:
  "str_in msg_timeout err \<or> str_in (asc ''not found'') (lower db err)
     \<or> str_in (asc ''authentication canceled'') (lower db err) \<Longrightarrow> stops_retry db err"
  by (auto simp: stops_retry_def Let_def)

lemma retry_loop_stop:
  "outcome e c t (length (calls st)) = (False, err) \<Longrightarrow> stops_retry (udb e) err \<Longrightarrow>
   retry_loop e c t (Suc n) l st = ((False, err), st\<lparr>calls := calls st @ [asc ''pkexec'' # c]\<rparr>)"
  by (simp add: run_command_def)

lemma retry_loop_success:
  "outcome e c t (length (calls st)) = (True, out) \<Longrightarrow>
   retry_loop e c t (Suc n) l st = ((True, out), st\<lparr>calls := calls st @ [asc ''pkexec'' # c]\<rparr>)"
  by (simp add: run_command_def)

lemma retry_loop_again:
  "outcome e c t (length (calls st)) = (False, err) \<Longrightarrow> \<not> stops_retry (udb e) err \<Longrightarrow>
   retry_loop e c t (Suc n) l st = retry_loop e c t n err (st\<lparr>calls := calls st @ [asc ''pkexec'' # c]\<rparr>)"
  by (simp add: run_command_def)

lemma retry_third_time:
  assumes "3 \<le> max_attempts mr"
    and "outcome e c t (length (calls st)) = (False, e1)" "\<not> stops_retry (udb e) e1"
    and "outcome e c t (length (calls st) + 1) = (False, e2)" "\<not> stops_retry (udb e) e2"
    and "outcome e c t (length (calls st) + 2) = (True, out)"
  shows "run_command_with_retry e c t mr st
          = ((True, out), st\<lparr>calls := calls st @ replicate 3 (asc ''pkexec'' # c)\<rparr>)"
proof -
  from assms(1) obtain n where n: "max_attempts mr = Suc (Suc (Suc n))"
    by (metis Suc_le_D numeral_3_eq_3 Suc_le_mono)
  show ?thesis
    using assms(2-) by (simp add: run_command_with_retry_def n run_command_def numeral_3_eq_3)
qed

lemma retry_stops_on_marker:
  assumes "1 \<le> max_attempts mr" and "outcome e c t (length (calls st)) = (False, err)"
    and "str_in msg_timeout err \<or> str_in (asc ''not found'') (lower (udb e) err)
           \<or> str_in (asc ''authentication canceled'') (lower (udb e) err)"
  shows "run_command_with_retry e c t mr st
          = ((False, err), st\<lparr>calls := calls st @ [asc ''pkexec'' # c]\<rparr>)"
proof -
  from assms(1) obtain n where n: "max_attempts mr = Suc n" by (cases "max_attempts mr") auto
  from assms(3) have "stops_retry (udb e) err" by (rule stops_retry_markers)
  with assms(2) show ?thesis
    by (simp add: run_command_with_retry_def n run_command_def)
qed

lemma retry_stops_on_timeout:
  assumes "1 \<le> max_attempts mr"
    and "subprocess_run e (length (calls st)) (asc ''pkexec'' # c) = TimeoutExpired"
  shows "\<not> fst (fst (run_command_with_retry e c t mr st))
        \<and> calls (snd (run_command_with_retry e c t mr st)) = calls st @ [asc ''pkexec'' # c]"
proof -
  let ?m = "msg_timeout @ asc '' ('' @ str_nat t @ msg_seconds"
  have o: "outcome e c t (length (calls st)) = (False, ?m)"
    using assms(2) by (simp add: outcome_def)
  have "str_in msg_timeout ?m" by (rule str_in_append_right)
  then show ?thesis
    using retry_stops_on_marker [OF assms(1) o] by simp
qed

lemma retry_all_fail:
  assumes "1 \<le> max_attempts mr"
    and "\<forall>i<max_attempts mr. \<not> fst (outcome e c t (length (calls st) + i))"
  shows "\<exists>j. 1 \<le> j \<and> j \<le> max_attempts mr
          \<and> run_command_with_retry e c t mr st
            = ((False, snd (outcome e c t (length (calls st) + j - 1))),
               st\<lparr>calls := calls st @ replicate j (asc ''pkexec'' # c)\<rparr>)"
proof -
  from assms(1) have "0 < max_attempts mr" by simp
  from retry_loop_failure [OF this assms(2), of "[]"]
  obtain j where j: "1 \<le> j" "j \<le> max_attempts mr"
    "snd (retry_loop e c t (max_attempts mr) [] st) = st\<lparr>calls := calls st @ replicate j (asc ''pkexec'' # c)\<rparr>"
    "fst (retry_loop e c t (max_attempts mr) [] st) = (False, snd (outcome e c t (length (calls st) + j - 1)))"
    by blast
  have "run_command_with_retry e c t mr st
            = ((False, snd (outcome e c t (length (calls st) + j - 1))),
               st\<lparr>calls := calls st @ replicate j (asc ''pkexec'' # c)\<rparr>)"
    using j(3,4) by (simp add: run_command_with_retry_def prod_eq_iff)
  with j(1,2) show ?thesis by blast
qed

text \<open>
  Claim C4, as the code has it.  With at least three attempts allowed, two failures without
  a stop marker followed by a success give success with the third output after exactly
  three invocations.  With at least one attempt allowed, a failure whose output contains
  the timeout word, or "not found" or "authentication canceled" in any letter case, ends
  the loop after exactly one invocation, and so does a process that runs past its timeout.
  When every attempt fails, the result is failure with the output of the last invocation
  made.
\<close>

theorem retry_policy:
  "(3 \<le> max_attempts mr
      \<and> outcome e c t (length (calls st)) = (False, e1) \<and> \<not> stops_retry (udb e) e1
      \<and> outcome e c t (length (calls st) + 1) = (False, e2) \<and> \<not> stops_retry (udb e) e2
      \<and> outcome e c t (length (calls st) + 2) = (True, out)
    \<longrightarrow> run_command_with_retry e c t mr st
          = ((True, out), st\<lparr>calls := calls st @ replicate 3 (asc ''pkexec'' # c)\<rparr>))
   \<and> (1 \<le> max_attempts mr
      \<and> outcome e c t (length (calls st)) = (False, err)
      \<and> (str_in msg_timeout err \<or> str_in (asc ''not found'') (lower (udb e) err)
           \<or> str_in (asc ''authentication canceled'') (lower (udb e) err))
    \<longrightarrow> run_command_with_retry e c t mr st
          = ((False, err), st\<lparr>calls := calls st @ [asc ''pkexec'' # c]\<rparr>))
   \<and> (1 \<le> max_attempts mr
      \<and> subprocess_run e (length (calls st)) (asc ''pkexec'' # c) = TimeoutExpired
    \<longrightarrow> \<not> fst (fst (run_command_with_retry e c t mr st))
        \<and> calls (snd (run_command_with_retry e c t mr st)) = calls st @ [asc ''pkexec'' # c])
   \<and> (1 \<le> max_attempts mr
      \<and> (\<forall>i<max_attempts mr. \<not> fst (outcome e c t (length (calls st) + i)))
    \<longrightarrow> (\<exists>j. 1 \<le> j \<and> j \<le> max_attempts mr
          \<and> run_command_with_retry e c t mr st
            = ((False, snd (outcome e c t (length (calls st) + j - 1))),
               st\<lparr>calls := calls st @ replicate j (asc ''pkexec'' # c)\<rparr>)))"
proof -
  have a: "3 \<le> max_attempts mr
      \<and> outcome e c t (length (calls st)) = (False, e1) \<and> \<not> stops_retry (udb e) e1
      \<and> outcome e c t (length (calls st) + 1) = (False, e2) \<and> \<not> stops_retry (udb e) e2
      \<and> outcome e c t (length (calls st) + 2) = (True, out)
    \<longrightarrow> run_command_with_retry e c t mr st
          = ((True, out), st\<lparr>calls := calls st @ replicate 3 (asc ''pkexec'' # c)\<rparr>)"
    using retry_third_time [of mr e c t st e1 e2 out] by blast
  have b: "1 \<le> max_attempts mr
      \<and> outcome e c t (length (calls st)) = (False, err)
      \<and> (str_in msg_timeout err \<or> str_in (asc ''not found'') (lower (udb e) err)
           \<or> str_in (asc ''authentication canceled'') (lower (udb e) err))
    \<longrightarrow> run_command_with_retry e c t mr st
          = ((False, err), st\<lparr>calls := calls st @ [asc ''pkexec'' # c]\<rparr>)"
    using retry_stops_on_marker [of mr e c t st err] by blast
  have c: "1 \<le> max_attempts mr
      \<and> subprocess_run e (length (calls st)) (asc ''pkexec'' # c) = TimeoutExpired
    \<longrightarrow> \<not> fst (fst (run_command_with_retry e c t mr st))
        \<and> calls (snd (run_command_with_retry e c t mr st)) = calls st @ [asc ''pkexec'' # c]"
    using retry_stops_on_timeout [of mr e st c t] by blast
  have d: "1 \<le> max_attempts mr
      \<and> (\<forall>i<max_attempts mr. \<not> fst (outcome e c t (length (calls st) + i)))
    \<longrightarrow> (\<exists>j. 1 \<le> j \<and> j \<le> max_attempts mr
          \<and> run_command_with_retry e c t mr st
            = ((False, snd (outcome e c t (length (calls st) + j - 1))),
               st\<lparr>calls := calls st @ replicate j (asc ''pkexec'' # c)\<rparr>))"
    using retry_all_fail [of mr e c t st] by blast
  from a b c d show ?thesis by (intro conjI)
qed

theorem retry_policy_witness:
  "run_command_with_retry env_flaky [asc ''wg'', asc ''show''] 30 None st0
     = ((True, asc ''done''), st0\<lparr>calls := replicate 3 [asc ''pkexec'', asc ''wg'', asc ''show'']\<rparr>)
   \<and> run_command_with_retry env_not_found [asc ''wg-quick'', asc ''up'', asc ''usa''] 60 (Some 5) st0
     = ((False, asc ''pkexec: wg-quick: Command Not Found''),
        st0\<lparr>calls := [[asc ''pkexec'', asc ''wg-quick'', asc ''up'', asc ''usa'']]\<rparr>)
   \<and> \<not> fst (fst (run_command_with_retry env_timeout [asc ''wg'', asc ''show''] 30 (Some 5) st0))
   \<and> calls (snd (run_command_with_retry env_timeout [asc ''wg'', asc ''show''] 30 (Some 5) st0))
     = [[asc ''pkexec'', asc ''wg'', asc ''show'']]
   \<and> (\<exists>j. 1 \<le> j \<and> j \<le> 3
        \<and> run_command_with_retry env_failing [asc ''wg'', asc ''show''] 30 None st0
          = ((False, snd (outcome env_failing [asc ''wg'', asc ''show''] 30 (j - 1))),
             st0\<lparr>calls := replicate j [asc ''pkexec'', asc ''wg'', asc ''show'']\<rparr>))"
proof -
  have m: "max_attempts None = 3" "max_attempts (Some 5) = 5"
    by (simp_all add: max_attempts_def max_retries_default_def)
  have c0: "calls st0 = []" by (simp add: st0_def)
  have a: "outcome env_flaky [asc ''wg'', asc ''show''] 30 0 = (False, asc ''RTNETLINK answers: Device or resource busy'')"
    "\<not> stops_retry (udb env_flaky) (asc ''RTNETLINK answers: Device or resource busy'')"
    "outcome env_flaky [asc ''wg'', asc ''show''] 30 (0 + 1) = (False, asc ''RTNETLINK answers: Device or resource busy'')"
    "outcome env_flaky [asc ''wg'', asc ''show''] 30 (0 + 2) = (True, asc ''done'')"
    by code_simp+
  have b: "outcome env_not_found [asc ''wg-quick'', asc ''up'', asc ''usa''] 60 0 = (False, asc ''pkexec: wg-quick: Command Not Found'')"
    "str_in (asc ''not found'') (lower (udb env_not_found) (asc ''pkexec: wg-quick: Command Not Found''))"
    by code_simp+
  have c: "subprocess_run env_timeout 0 [asc ''pkexec'', asc ''wg'', asc ''show''] = TimeoutExpired"
    by (simp add: env_timeout_def)
  have d: "\<forall>i<3. \<not> fst (outcome env_failing [asc ''wg'', asc ''show''] 30 i)"
    by (simp add: outcome_def env_failing_def)
  from retry_policy [of None env_flaky "[asc ''wg'', asc ''show'']" 30 st0
      "asc ''RTNETLINK answers: Device or resource busy''" "asc ''RTNETLINK answers: Device or resource busy''" "asc ''done''"]
  have 1: "run_command_with_retry env_flaky [asc ''wg'', asc ''show''] 30 None st0
     = ((True, asc ''done''), st0\<lparr>calls := replicate 3 [asc ''pkexec'', asc ''wg'', asc ''show'']\<rparr>)"
    using a unfolding m c0 list.size append_Nil by blast
  from retry_policy [of "Some 5" env_not_found "[asc ''wg-quick'', asc ''up'', asc ''usa'']" 60 st0 _ _ _
      "asc ''pkexec: wg-quick: Command Not Found''"]
  have 2: "run_command_with_retry env_not_found [asc ''wg-quick'', asc ''up'', asc ''usa''] 60 (Some 5) st0
     = ((False, asc ''pkexec: wg-quick: Command Not Found''),
        st0\<lparr>calls := [[asc ''pkexec'', asc ''wg-quick'', asc ''up'', asc ''usa'']]\<rparr>)"
    using b by (simp add: m c0)
  from retry_policy [of "Some 5" env_timeout "[asc ''wg'', asc ''show'']" 30 st0]
  have 3: "\<not> fst (fst (run_command_with_retry env_timeout [asc ''wg'', asc ''show''] 30 (Some 5) st0))
   \<and> calls (snd (run_command_with_retry env_timeout [asc ''wg'', asc ''show''] 30 (Some 5) st0))
     = [[asc ''pkexec'', asc ''wg'', asc ''show'']]"
    using c by (simp add: m c0)
  from retry_policy [of None env_failing "[asc ''wg'', asc ''show'']" 30 st0]
  have 4: "\<exists>j. 1 \<le> j \<and> j \<le> 3
        \<and> run_command_with_retry env_failing [asc ''wg'', asc ''show''] 30 None st0
          = ((False, snd (outcome env_failing [asc ''wg'', asc ''show''] 30 (j - 1))),
             st0\<lparr>calls := replicate j [asc ''pkexec'', asc ''wg'', asc ''show'']\<rparr>)"
    using d by (simp add: m c0)
  from 1 2 3 4 show ?thesis by (intro conjI) simp_all
qed

text \<open>
  With one attempt allowed, a runner that would fail twice and then succeed is invoked
  once and the result is the first failure.
\<close>

theorem retry_policy_counterexample:
  "outcome env_flaky [asc ''wg'', asc ''show''] 30 0 = (False, asc ''RTNETLINK answers: Device or resource busy'')
   \<and> outcome env_flaky [asc ''wg'', asc ''show''] 30 1 = (False, asc ''RTNETLINK answers: Device or resource busy'')
   \<and> outcome env_flaky [asc ''wg'', asc ''show''] 30 2 = (True, asc ''done'')
   \<and> max_attempts (Some 1) = 1
   \<and> run_command_with_retry env_flaky [asc ''wg'', asc ''show''] 30 (Some 1) st0
      = ((False, asc ''RTNETLINK answers: Device or resource busy''),
         \<lparr>calls = [[asc ''pkexec'', asc ''wg'', asc ''show'']], active_profile = None\<rparr>)"
  by code_simp

text \<open>
  Lowering a text of ASCII characters reads nothing from the character database.
\<close>

lemma lower_ascii_text: "is_ascii s \<Longrightarrow> lower db s = map lower_ascii s"
proof -
  assume a: "is_ascii s"
  have "map (\<lambda>i. if s ! i < 128 then [lower_ascii (s ! i)] else lower_ext db s i) [0..<length s]
      = map (\<lambda>i. [lower_ascii (s ! i)]) [0..<length s]"
    using a by (auto simp: is_ascii_def list_all_length)
  also have "concat \<dots> = map (\<lambda>i. lower_ascii (s ! i)) [0..<length s]"
    by (induction "[0..<length s]") (simp_all add: concat_map_singleton)
  also have "\<dots> = map lower_ascii (map (nth s) [0..<length s])"
    by simp
  also have "\<dots> = map lower_ascii s"
    by (simp only: map_nth)
  finally show ?thesis by (simp add: lower_def)
qed

text \<open>
  The second disjunct of the stop test looks for a capital letter in the lowered output.
  Lowering an ASCII character never gives a capital letter, so the text can only be found
  in what the character database gives for the characters beyond ASCII.
\<close>

lemma str_in_set: "str_in needle hay \<Longrightarrow> set needle \<subseteq> set hay"
proof (induction hay)
  case Nil
  then show ?case by simp
next
  case (Cons a hay)
  from Cons.prems have "prefix needle (a # hay) \<or> str_in needle hay" by simp
  then show ?case
  proof
    assume "prefix needle (a # hay)"
    then show ?thesis by (rule set_mono_prefix)
  next
    assume "str_in needle hay"
    from Cons.IH [OF this] show ?thesis by auto
  qed
qed

lemma lower_set:
  "c \<in> set (lower db s) \<Longrightarrow>
   (\<exists>a \<in> set s. a < 128 \<and> c = lower_ascii a)
     \<or> (\<exists>i < length s. 128 \<le> s ! i \<and> c \<in> set (lower_ext db s i))"
  by (auto simp: lower_def split: if_splits)

lemma permission_denied_never_found:
  assumes "\<forall>s i. i < length s \<and> 128 \<le> s ! i \<longrightarrow> 80 \<notin> set (lower_ext db s i)"
  shows "\<not> str_in (asc ''Permission denied'') (lower db s)"
proof
  assume "str_in (asc ''Permission denied'') (lower db s)"
  then have "80 \<in> set (lower db s)" using str_in_set by fastforce
  from lower_set [OF this] assms show False
    by (auto simp: lower_ascii_def split: if_splits)
qed

theorem permission_denied_is_retried:
  "run_command_with_retry env_denied [asc ''wg-quick'', asc ''up'', asc ''usa''] 60 None st0
     = ((False, asc ''Permission denied''),
        \<lparr>calls = replicate 3 [asc ''pkexec'', asc ''wg-quick'', asc ''up'', asc ''usa''], active_profile = None\<rparr>)"
  by code_simp

section \<open>Properties of active-profile derivation\<close>

lemma split_on_nonempty: "split_on d s \<noteq> []"
  by (induction s) (auto split: list.splits)

lemma hd_split_on: "hd (split_on d s) = takeWhile (\<lambda>c. c \<noteq> d) s"
  by (induction s) (auto split: list.splits simp: split_on_nonempty)

lemma field1_split_on:
  "field1 (split_on d s) = takeWhile (\<lambda>c. c \<noteq> d) (drop 1 (dropWhile (\<lambda>c. c \<noteq> d) s))"
proof (induction s)
  case Nil
  show ?case by (simp add: field1_def)
next
  case (Cons c cs)
  show ?case
  proof (cases "c = d")
    case True
    obtain w ws where "split_on d cs = w # ws"
      using split_on_nonempty [of d cs] by (cases "split_on d cs") auto
    then show ?thesis
      using True hd_split_on [of d cs] by (simp add: field1_def)
  next
    case False
    obtain w ws where "split_on d cs = w # ws"
      using split_on_nonempty [of d cs] by (cases "split_on d cs") auto
    then show ?thesis
      using False Cons.IH by (simp add: field1_def)
  qed
qed

lemma length_split_on: "length (split_on d s) = Suc (length (filter (\<lambda>c. c = d) s))"
  by (induction s) (auto split: list.splits simp: split_on_nonempty)

text \<open>
  A line that contains the marker has a second field, so \<open>line.split(':')[1]\<close> cannot
  raise: lowering an ASCII character other than the colon never gives a colon, and the
  lowercase of a character beyond ASCII contains none.
\<close>

lemma marker_has_field:
  assumes "\<forall>s i. i < length s \<and> 128 \<le> s ! i \<longrightarrow> colon \<notin> set (lower_ext db s i)"
    and "str_in (asc ''interface:'') (lower db line)"
  shows "2 \<le> length (split_on colon line)"
proof -
  from assms(2) have "colon \<in> set (lower db line)" using str_in_set by fastforce
  from lower_set [OF this] assms(1) have "colon \<in> set line"
    by (auto simp: lower_ascii_def split: if_splits)
  then have "filter (\<lambda>c. c = colon) line \<noteq> []"
    by (induction line) auto
  then obtain x xs where "filter (\<lambda>c. c = colon) line = x # xs"
    by (cases "filter (\<lambda>c. c = colon) line") auto
  then show ?thesis by (simp add: length_split_on)
qed

lemma match_profile_find:
  "match_profile db ps i = find (\<lambda>p. str_in (lower db p) (lower db i)) ps"
  by (induction ps) auto

lemma scan_lines_spec:
  "scan_lines db ps ls = (case List.map_filter (line_match db ps) ls of [] \<Rightarrow> None | p # _ \<Rightarrow> Some p)"
  by (induction ls)
     (auto simp: List.map_filter_simps line_match_def interface_token_def field1_split_on
        match_profile_find split: option.splits)

text \<open>
  Claim C5.  On a successful status query the derived active profile is what the
  specification words: the lines of the trimmed output are scanned in order; a line that
  contains "interface:" in any letter case yields the first configured name whose lowered
  form is a substring of the lowered token after the line's first colon; the first line
  that yields a name decides, and with no such line the result is none.  Lowering and
  trimming are those of Python strings, for names and outputs within ASCII or beyond.  With
  the default list, "interface: wg0" derives none and "interface: wg-bombox" derives bomBox.
\<close>

theorem active_profile_derivation:
  "(run_command_with_retry e [asc ''wg'', asc ''show''] timeout_wg_show None st = ((True, output), st')
      \<longrightarrow> get_active_profile e st
          = (derive_active_spec (udb e) (profiles e) output,
             st'\<lparr>active_profile := derive_active_spec (udb e) (profiles e) output\<rparr>))
   \<and> scan_lines db [asc ''App'', asc ''bomBox'', asc ''usa'']
        (split_on newline (strip db (asc ''interface: wg0'' @ [newline] @ asc ''public key: xxx''))) = None
   \<and> scan_lines db [asc ''App'', asc ''bomBox'', asc ''usa'']
        (split_on newline (strip db (asc ''interface: wg-bombox'' @ [newline] @ asc ''public key: xxx'')))
      = Some (asc ''bomBox'')"
proof -
  have "get_active_profile e st
          = (derive_active_spec (udb e) (profiles e) output,
             st'\<lparr>active_profile := derive_active_spec (udb e) (profiles e) output\<rparr>)"
    if "run_command_with_retry e [asc ''wg'', asc ''show''] timeout_wg_show None st = ((True, output), st')"
    using that by (simp add: get_active_profile_def derive_active_spec_def scan_lines_spec Let_def)
  moreover have "scan_lines db [asc ''App'', asc ''bomBox'', asc ''usa'']
        (split_on newline (strip db (asc ''interface: wg0'' @ [newline] @ asc ''public key: xxx''))) = None"
    by code_simp
  moreover have "scan_lines db [asc ''App'', asc ''bomBox'', asc ''usa'']
        (split_on newline (strip db (asc ''interface: wg-bombox'' @ [newline] @ asc ''public key: xxx'')))
      = Some (asc ''bomBox'')"
    by code_simp
  ultimately show ?thesis by blast
qed

theorem active_profile_derivation_witness:
  "run_command_with_retry env_bombox [asc ''wg'', asc ''show''] timeout_wg_show None st0
     = ((True, asc ''interface: wg-bombox'' @ [newline] @ asc ''  public key: xxx''),
        st0\<lparr>calls := [[asc ''pkexec'', asc ''wg'', asc ''show'']]\<rparr>)
   \<and> get_active_profile env_bombox st0
     = (Some (asc ''bomBox''), \<lparr>calls = [[asc ''pkexec'', asc ''wg'', asc ''show'']], active_profile = Some (asc ''bomBox'')\<rparr>)
   \<and> run_command_with_retry env_wg0 [asc ''wg'', asc ''show''] timeout_wg_show None st0
     = ((True, asc ''interface: wg0'' @ [newline] @ asc ''public key: xxx''),
        st0\<lparr>calls := [[asc ''pkexec'', asc ''wg'', asc ''show'']]\<rparr>)
   \<and> get_active_profile env_wg0 st0
     = (None, \<lparr>calls = [[asc ''pkexec'', asc ''wg'', asc ''show'']], active_profile = None\<rparr>)
   \<and> run_command_with_retry env_dom [asc ''wg'', asc ''show''] timeout_wg_show None st0
     = ((True, asc ''interface: '' @ [1076, 1086, 1084]),
        st0\<lparr>calls := [[asc ''pkexec'', asc ''wg'', asc ''show'']]\<rparr>)
   \<and> get_active_profile env_dom st0
     = (Some [1044, 1086, 1084],
        \<lparr>calls = [[asc ''pkexec'', asc ''wg'', asc ''show'']], active_profile = Some [1044, 1086, 1084]\<rparr>)"
proof -
  have r3: "run_command_with_retry env_dom [asc ''wg'', asc ''show''] timeout_wg_show None st0
     = ((True, asc ''interface: '' @ [1076, 1086, 1084]),
        st0\<lparr>calls := [[asc ''pkexec'', asc ''wg'', asc ''show'']]\<rparr>)"
    by (simp add: run_command_with_retry_def max_attempts_def max_retries_default_def
        numeral_3_eq_3 run_command_def outcome_def env_dom_def env_bombox_def st0_def)
  have l1: "lower db_sample [105, 110, 116, 101, 114, 102, 97, 99, 101, 58, 32, 1076, 1086, 1084]
      = [105, 110, 116, 101, 114, 102, 97, 99, 101, 58, 32, 1076, 1086, 1084]"
    by (simp add: lower_def db_sample_def lower_ascii_def upt_conv_Cons nth_Cons')
  have l2: "lower db_sample [1076, 1086, 1084] = [1076, 1086, 1084]"
    by (simp add: lower_def db_sample_def lower_ascii_def upt_conv_Cons nth_Cons')
  have l3: "lower db_sample [1044, 1086, 1084] = [1076, 1086, 1084]"
    by (simp add: lower_def db_sample_def lower_ascii_def upt_conv_Cons nth_Cons')
  have s3: "strip db_sample [105, 110, 116, 101, 114, 102, 97, 99, 101, 58, 32, 1076, 1086, 1084]
      = [105, 110, 116, 101, 114, 102, 97, 99, 101, 58, 32, 1076, 1086, 1084]"
    by (simp add: strip_def is_space_def is_ascii_space_def db_sample_def)
  have t3: "interface_token db_sample [105, 110, 116, 101, 114, 102, 97, 99, 101, 58, 32, 1076, 1086, 1084]
      = [1076, 1086, 1084]"
    by (simp add: interface_token_def strip_def is_space_def is_ascii_space_def db_sample_def)
  have d3: "derive_active_spec (udb env_dom) (profiles env_dom) (asc ''interface: '' @ [1076, 1086, 1084])
              = Some [1044, 1086, 1084]"
    by (simp add: derive_active_spec_def env_dom_def env_bombox_def s3 t3 l1 l2 l3
        List.map_filter_simps line_match_def)
  from active_profile_derivation [of env_dom st0] r3 d3
  have g3: "get_active_profile env_dom st0
     = (Some [1044, 1086, 1084],
        \<lparr>calls = [[asc ''pkexec'', asc ''wg'', asc ''show'']], active_profile = Some [1044, 1086, 1084]\<rparr>)"
    by (simp add: st0_def)
  have r1: "run_command_with_retry env_bombox [asc ''wg'', asc ''show''] timeout_wg_show None st0
     = ((True, asc ''interface: wg-bombox'' @ [newline] @ asc ''  public key: xxx''),
        st0\<lparr>calls := [[asc ''pkexec'', asc ''wg'', asc ''show'']]\<rparr>)"
    by code_simp
  have r2: "run_command_with_retry env_wg0 [asc ''wg'', asc ''show''] timeout_wg_show None st0
     = ((True, asc ''interface: wg0'' @ [newline] @ asc ''public key: xxx''),
        st0\<lparr>calls := [[asc ''pkexec'', asc ''wg'', asc ''show'']]\<rparr>)"
    by code_simp
  have d1: "derive_active_spec (udb env_bombox) (profiles env_bombox) (asc ''interface: wg-bombox'' @ [newline] @ asc ''  public key: xxx'')
              = Some (asc ''bomBox'')"
    by code_simp
  have d2: "derive_active_spec (udb env_wg0) (profiles env_wg0) (asc ''interface: wg0'' @ [newline] @ asc ''public key: xxx'') = None"
    by code_simp
  from active_profile_derivation [of env_bombox st0] r1 d1
  have g1: "get_active_profile env_bombox st0
     = (Some (asc ''bomBox''), \<lparr>calls = [[asc ''pkexec'', asc ''wg'', asc ''show'']], active_profile = Some (asc ''bomBox'')\<rparr>)"
    by (simp add: st0_def)
  from active_profile_derivation [of env_wg0 st0] r2 d2
  have g2: "get_active_profile env_wg0 st0
     = (None, \<lparr>calls = [[asc ''pkexec'', asc ''wg'', asc ''show'']], active_profile = None\<rparr>)"
    by (simp add: st0_def)
  from r1 g1 r2 g2 r3 g3 show ?thesis by (intro conjI)
qed

section \<open>Properties of the orchestrator\<close>

lemma run_with_retry_state:
  "\<exists>j\<le>max_attempts mr.
     snd (run_command_with_retry e c t mr st) = st\<lparr>calls := calls st @ replicate j (asc ''pkexec'' # c)\<rparr>"
  unfolding run_command_with_retry_def by (rule retry_loop_state)

lemma max_attempts_None: "max_attempts None = 3"
  by (simp add: max_attempts_def max_retries_default_def)

lemma get_active_profile_calls:
  "\<exists>j\<le>3. calls (snd (get_active_profile e st)) = calls st @ replicate j [asc ''pkexec'', asc ''wg'', asc ''show'']"
proof -
  from run_with_retry_state [of None e "[asc ''wg'', asc ''show'']" timeout_wg_show st]
  obtain j where j: "j \<le> 3"
    "snd (run_command_with_retry e [asc ''wg'', asc ''show''] timeout_wg_show None st)
       = st\<lparr>calls := calls st @ replicate j [asc ''pkexec'', asc ''wg'', asc ''show'']\<rparr>"
    by (auto simp: max_attempts_None)
  have "calls (snd (get_active_profile e st)) = calls st @ replicate j [asc ''pkexec'', asc ''wg'', asc ''show'']"
    using j(2) by (auto simp: get_active_profile_def Let_def split: prod.splits)
  with j(1) show ?thesis by blast
qed

lemma get_profile_status_calls:
  "\<exists>j\<le>3. calls (snd (get_profile_status e name st)) = calls st @ replicate j [asc ''pkexec'', asc ''wg'', asc ''show'']"
  using get_active_profile_calls [of e st]
  by (auto simp: get_profile_status_def split: prod.splits)

text \<open>
  Claim C7, as the code has it.  For a profile that passes validation and whose freshly
  derived status is ACTIVE, activation returns success with the message "Profil' <name>
  uzhe aktiven" (already active); the only commands run are those of the status query
  (\<open>wg show\<close>, at most three times): no "up" and no "down" command.
\<close>

theorem activate_already_active:
  assumes "fst (validate_profile e name)"
    and "fst (get_profile_status e name st) = ACTIVE"
  shows "activate_profile e name st
           = ((True, msg_profile @ name @ msg_already_active), snd (get_profile_status e name st))
         \<and> (\<exists>j\<le>3. calls (snd (activate_profile e name st))
                      = calls st @ replicate j [asc ''pkexec'', asc ''wg'', asc ''show''])"
proof -
  from assms(1) have ex: "check_profile_exists e name"
    by (auto simp: validate_profile_def split: if_splits)
  have r: "activate_profile e name st
           = ((True, msg_profile @ name @ msg_already_active), snd (get_profile_status e name st))"
    using assms ex by (auto simp: activate_profile_def split: prod.splits)
  show ?thesis
    using get_profile_status_calls [of e name st] by (simp add: r)
qed

theorem activate_already_active_witness:
  "fst (validate_profile env_bombox (asc ''bomBox''))
   \<and> fst (get_profile_status env_bombox (asc ''bomBox'') st0) = ACTIVE
   \<and> activate_profile env_bombox (asc ''bomBox'') st0
      = ((True, msg_profile @ asc ''bomBox'' @ msg_already_active),
         \<lparr>calls = [[asc ''pkexec'', asc ''wg'', asc ''show'']], active_profile = Some (asc ''bomBox'')\<rparr>)"
proof -
  have v: "fst (validate_profile env_bombox (asc ''bomBox''))" by code_simp
  have s: "fst (get_profile_status env_bombox (asc ''bomBox'') st0) = ACTIVE" by code_simp
  have s': "snd (get_profile_status env_bombox (asc ''bomBox'') st0)
      = \<lparr>calls = [[asc ''pkexec'', asc ''wg'', asc ''show'']], active_profile = Some (asc ''bomBox'')\<rparr>" by code_simp
  show ?thesis using activate_already_active [OF v s] v s unfolding s' by simp
qed

text \<open>
  The status of \<open>App\<close> is ACTIVE, yet activation fails: validation comes first, and the
  readable configuration lacks its \<open>[Interface]\<close> section.
\<close>

theorem activate_already_active_counterexample:
  "fst (get_profile_status env_stale (asc ''App'') st0) = ACTIVE
   \<and> activate_profile env_stale (asc ''App'') st0
      = ((False, msg_profile @ asc ''App'' @ msg_invalid @ msg_no_interface), st0)"
  by code_simp

text \<open>
  Claim C1 at a configured list of its own.  The manager is configured with the profiles
  \<open>home\<close> and \<open>work\<close>; \<open>turn_off_all\<close> brings down \<open>App\<close>, \<open>bomBox\<close> and \<open>usa\<close>, reports
  that all profiles are off, and never runs a command for \<open>home\<close> or \<open>work\<close>.
\<close>

theorem turn_off_all_ignores_configured_list:
  "profiles env_custom = [asc ''home'', asc ''work'']
   \<and> turn_off_all env_custom st0
      = ((True, msg_all_off),
         \<lparr>calls = [[asc ''pkexec'', asc ''wg-quick'', asc ''down'', asc ''App''],
                   [asc ''pkexec'', asc ''wg-quick'', asc ''down'', asc ''bomBox''],
                   [asc ''pkexec'', asc ''wg-quick'', asc ''down'', asc ''usa'']],
          active_profile = None\<rparr>)"
  by code_simp

section \<open>Properties of rounding\<close>

lemma two_powi_less_iff: "(2::rat) powi a < 2 powi b \<longleftrightarrow> a < b"
  by (metis less_irrefl linorder_neqE_linordered_idom one_less_numeral_iff
      order_less_trans power_int_strict_increasing semiring_norm(76))


lemma ilog2_bounds:
  assumes "0 < q"
  shows "2 powi (ilog2 q) \<le> q \<and> q < 2 powi (ilog2 q + 1)"
proof -
  obtain a b where ab: "quotient_of q = (a, b)" by force
  then have b: "0 < b" by (rule quotient_of_denom_pos)
  from ab have q: "q = of_int a / of_int b" by (rule quotient_of_div)
  with assms b have a: "0 < a" by (simp add: zero_less_divide_iff)
  let ?A = "bitlen a" and ?B = "bitlen b"
  from bitlen_bounds [OF a] have "a < 2 ^ nat ?A" by simp
  then have "(of_int a :: rat) < of_int (2 ^ nat ?A)" by (simp only: of_int_less_iff)
  moreover have "0 \<le> ?A" by (rule bitlen_nonneg)
  ultimately have a_hi: "(of_int a :: rat) < 2 powi ?A" by (simp add: power_int_def)
  from bitlen_bounds [OF a] have "2 ^ nat (?A - 1) \<le> a" by simp
  then have "(of_int (2 ^ nat (?A - 1)) :: rat) \<le> of_int a" by (simp only: of_int_le_iff)
  moreover have "1 \<le> ?A" using a by (simp add: bitlen_alt_def)
  ultimately have a_lo: "(2::rat) powi (?A - 1) \<le> of_int a" by (simp add: power_int_def)
  from bitlen_bounds [OF b] have "b < 2 ^ nat ?B" by simp
  then have "(of_int b :: rat) < of_int (2 ^ nat ?B)" by (simp only: of_int_less_iff)
  moreover have "0 \<le> ?B" by (rule bitlen_nonneg)
  ultimately have b_hi: "(of_int b :: rat) < 2 powi ?B" by (simp add: power_int_def)
  from bitlen_bounds [OF b] have "2 ^ nat (?B - 1) \<le> b" by simp
  then have "(of_int (2 ^ nat (?B - 1)) :: rat) \<le> of_int b" by (simp only: of_int_le_iff)
  moreover have B1: "1 \<le> ?B" using b by (simp add: bitlen_alt_def)
  ultimately have b_lo: "(2::rat) powi (?B - 1) \<le> of_int b" by (simp add: power_int_def)
  have bpos: "(0::rat) < of_int b" using b by simp
  let ?l = "?A - ?B"
  have hi: "q < 2 powi (?l + 1)"
  proof -
    have "of_int a < (2::rat) powi ?A" by (rule a_hi)
    also have "\<dots> = 2 powi (?l + 1) * 2 powi (?B - 1)"
      by (simp flip: power_int_add)
    also have "\<dots> \<le> 2 powi (?l + 1) * of_int b"
      using b_lo by (simp add: mult_left_mono)
    finally show ?thesis using bpos by (simp add: q pos_divide_less_eq)
  qed
  have lo: "2 powi (?l - 1) < q"
  proof -
    have "(2::rat) powi (?l - 1) * of_int b < 2 powi (?l - 1) * 2 powi ?B"
      using b_hi by (simp add: mult_strict_left_mono)
    also have "\<dots> = 2 powi (?A - 1)" by (simp flip: power_int_add)
    also have "\<dots> \<le> of_int a" by (rule a_lo)
    finally show ?thesis using bpos by (simp add: q pos_less_divide_eq)
  qed
  show ?thesis
  proof (cases "2 powi ?l \<le> q")
    case True
    then have "ilog2 q = ?l" by (simp add: ilog2_def ab Let_def)
    with True hi show ?thesis by simp
  next
    case False
    then have "ilog2 q = ?l - 1" by (simp add: ilog2_def ab Let_def)
    with False lo show ?thesis by simp
  qed
qed

lemma ilog2_unique:
  assumes "0 < q" "2 powi l \<le> q" "q < 2 powi (l + 1)"
  shows "ilog2 q = l"
proof -
  from ilog2_bounds [OF assms(1)]
  have b: "2 powi (ilog2 q) \<le> q" "q < 2 powi (ilog2 q + 1)" by simp_all
  from b(1) assms(3) have "(2::rat) powi (ilog2 q) < 2 powi (l + 1)" by (rule le_less_trans)
  then have 1: "ilog2 q < l + 1" by (simp only: two_powi_less_iff)
  from assms(2) b(2) have "(2::rat) powi l < 2 powi (ilog2 q + 1)" by (rule le_less_trans)
  then have 2: "l < ilog2 q + 1" by (simp only: two_powi_less_iff)
  from 1 2 show ?thesis by simp
qed

lemma round_half_even_near:
  assumes "\<bar>q - of_int m\<bar> < 1 / 2"
  shows "round_half_even q = m"
proof (cases "of_int m \<le> q")
  case True
  with assms have "of_int m \<le> q" "q < of_int m + 1" by linarith+
  then have f: "\<lfloor>q\<rfloor> = m" by (simp add: floor_unique)
  with assms True show ?thesis by (simp add: round_half_even_def Let_def)
next
  case False
  with assms have "of_int (m - 1) \<le> q" "q < of_int (m - 1) + 1" by simp_all
  then have f: "\<lfloor>q\<rfloor> = m - 1" by (rule floor_unique)
  have "1 / 2 < q - of_int (m - 1)" using assms False by simp
  then show ?thesis by (simp add: round_half_even_def Let_def f)
qed

lemma round_half_even_of_int: "round_half_even (of_int m) = m"
  by (rule round_half_even_near) simp

lemma round_pos_cert:
  assumes "0 < q" "2 powi l \<le> q" "q < 2 powi (l + 1)"
    and "e = max (l - 52) (- 1074)"
    and "\<bar>q / 2 powi e - of_int m\<bar> < 1 / 2"
    and "of_int m * 2 powi e < (2::rat) ^ 1024"
  shows "round_pos q = Finite (of_int m * 2 powi e)"
proof -
  have "ilog2 q = l" using assms(1-3) by (rule ilog2_unique)
  then have e: "max (ilog2 q - 52) (- 1074) = e" using assms(4) by simp
  have "round_half_even (q / 2 powi e) = m" using assms(5) by (rule round_half_even_near)
  then show ?thesis using assms(6) by (simp add: round_pos_def e Let_def)
qed

text \<open>A number with at most 53 significant bits in the range of the doubles is its own rounding.\<close>

lemma round_pos_exact:
  assumes "0 < m" "m < 2 ^ 53" "- 1074 \<le> e" "of_int m * 2 powi e < (2::rat) ^ 1024"
  shows "round_pos (of_int m * 2 powi e) = Finite (of_int m * 2 powi e)"
proof -
  define q :: rat where "q = of_int m * 2 powi e"
  define e' where "e' = max (ilog2 q - 52) (- 1074)"
  have q: "0 < q" using assms(1) by (simp add: q_def)
  from ilog2_bounds [OF q] have "2 powi (ilog2 q) \<le> q" by simp
  also have "q < 2 ^ 53 * 2 powi e"
  proof -
    have "(of_int m :: rat) < of_int (2 ^ 53)" using assms(2) by (simp only: of_int_less_iff)
    then show ?thesis by (simp add: q_def mult_strict_right_mono)
  qed
  also have "\<dots> = 2 powi (e + 53)" by (simp add: power_int_add)
  finally have "ilog2 q < e + 53" by (simp only: two_powi_less_iff)
  with assms(3) have le: "e' \<le> e" by (simp add: e'_def)
  define k where "k = nat (e - e')"
  have "(2::rat) powi e = 2 powi (int k + e')" using le by (simp add: k_def)
  also have "\<dots> = 2 ^ k * 2 powi e'" by (simp add: power_int_add)
  finally have pe: "(2::rat) powi e = 2 ^ k * 2 powi e'" .
  have "q / 2 powi e' = of_int m * 2 ^ k" by (simp add: q_def pe)
  also have "\<dots> = of_int (m * 2 ^ k)" by simp
  finally have r: "round_half_even (q / 2 powi e') = m * 2 ^ k"
    by (simp only: round_half_even_of_int)
  have v: "of_int (m * 2 ^ k) * 2 powi e' = q" by (simp add: q_def pe)
  have "round_pos q = Finite q"
    using assms(4) unfolding round_pos_def Let_def e'_def [symmetric] r v
    by (simp add: q_def)
  then show ?thesis by (simp add: q_def)
qed

lemma round_double_of_nat:
  assumes "n < 2 ^ 53"
  shows "round_double (of_nat n) = Finite (of_nat n)"
proof (cases "n = 0")
  case True
  then show ?thesis by (simp add: round_double_def)
next
  case False
  have m: "0 < int n" "int n < 2 ^ 53" using False assms by simp_all
  have "(of_int (int n) :: rat) < of_int (2 ^ 53)" using m(2) by (simp only: of_int_less_iff)
  also have "\<dots> < 2 ^ 1024" by simp
  finally have "of_int (int n) * 2 powi 0 < (2::rat) ^ 1024" by simp
  from round_pos_exact [OF m _ this] have "round_pos (of_nat n) = Finite (of_nat n)" by simp
  then show ?thesis using False by (simp add: round_double_def)
qed

lemma fmul_of_nat:
  assumes "a * b < 2 ^ 53"
  shows "fmul (Finite (of_nat a)) (Finite (of_nat b)) = Finite (of_nat (a * b))"
  using round_double_of_nat [OF assms] by simp

section \<open>Properties of the text operations\<close>

lemma str_in_skip:
  assumes "needle \<noteq> []" "hd needle \<notin> set pre"
  shows "str_in needle (pre @ suf) = str_in needle suf"
  using assms(2)
proof (induction pre)
  case Nil
  show ?case by simp
next
  case (Cons c pre)
  from assms(1) obtain x xs where n: "needle = x # xs" by (cases needle) auto
  with Cons.prems have "x \<noteq> c" by auto
  then have "\<not> prefix needle (c # pre @ suf)" by (simp add: n)
  with Cons show ?case by simp
qed

lemma remove_all_skip:
  assumes "old \<noteq> []" "hd old \<notin> set pre"
  shows "remove_all old (pre @ suf) = pre @ remove_all old suf"
  using assms(2)
proof (induction pre)
  case Nil
  show ?case by simp
next
  case (Cons c pre)
  from assms(1) obtain x xs where n: "old = x # xs" by (cases old) auto
  with Cons.prems have "x \<noteq> c" by auto
  then have "\<not> prefix old (c # pre @ suf)" by (simp add: n)
  with Cons show ?case by simp
qed

lemma remove_all_self: "remove_all old old = []"
proof (cases old)
  case Nil
  then show ?thesis by simp
next
  case (Cons c cs)
  then show ?thesis by simp
qed
lemma trim_padded:
  assumes "s \<noteq> []" "\<not> P (hd s)" "\<not> P (last s)" "list_all P sp"
  shows "rev (dropWhile P (rev (dropWhile P (s @ sp)))) = s"
proof -
  from assms(1,2) have 1: "dropWhile P (s @ sp) = s @ sp"
    by (cases s) auto
  have "dropWhile P (rev sp @ rev s) = dropWhile P (rev s)"
    using assms(4) by (simp add: dropWhile_append list_all_iff)
  also have "\<dots> = rev s"
    using assms(1,3) by (cases "rev s") (auto simp: last_rev hd_rev)
  finally show ?thesis by (simp add: 1)
qed

lemma strip_padded:
  assumes "s \<noteq> []" "\<not> is_space db (hd s)" "\<not> is_space db (last s)" "list_all (is_space db) sp"
  shows "strip db (s @ sp) = s"
  unfolding strip_def using assms by (rule trim_padded)

lemma strip_c_padded:
  assumes "s \<noteq> []" "\<not> is_c_space (hd s)" "\<not> is_c_space (last s)" "list_all is_c_space sp"
  shows "strip_c (s @ sp) = s"
  unfolding strip_c_def using assms by (rule trim_padded)

lemma drop_underscores_none:
  "underscore \<notin> set s \<Longrightarrow> prev \<noteq> underscore \<Longrightarrow> drop_underscores prev s = Some s"
  by (induction s arbitrary: prev) auto

lemma lower_ascii_digit: "is_digit c \<Longrightarrow> lower_ascii c = c"
  by (simp add: is_digit_def lower_ascii_def)

lemma digit_not_space: "is_digit c \<Longrightarrow> \<not> is_space db c"
  by (auto simp: is_digit_def is_space_def is_ascii_space_def)

lemma digit_not_c_space: "is_digit c \<Longrightarrow> \<not> is_c_space c"
  by (auto simp: is_digit_def is_c_space_def)

lemma ascii_space_is_space: "is_ascii_space c \<Longrightarrow> is_space db c \<and> c < 128"
  by (auto simp: is_space_def is_ascii_space_def)

lemma c_space_is_ascii_space: "is_c_space c \<Longrightarrow> is_ascii_space c"
  by (auto simp: is_c_space_def is_ascii_space_def)

lemma str_nat_digits: "list_all is_digit (str_nat n) \<and> str_nat n \<noteq> []"
proof (induction n rule: str_nat.induct)
  case (1 n)
  have d: "is_digit (48 + k)" if "k < 10" for k
    using that by (simp add: is_digit_def)
  show ?case
  proof (cases "n < 10")
    case True
    then show ?thesis using d by (subst (1 2) str_nat.simps) simp
  next
    case False
    then show ?thesis using 1 d [of "n mod 10"] by (subst (1 2) str_nat.simps) simp
  qed
qed

lemma digits_val_snoc: "digits_val (ds @ [c]) = digits_val ds * 10 + digit_val c"
  by (simp add: digits_val_def)

lemma digits_val_str_nat: "digits_val (str_nat n) = n"
proof (induction n rule: str_nat.induct)
  case (1 n)
  show ?case
  proof (cases "n < 10")
    case True
    then show ?thesis by (subst str_nat.simps) (simp add: digits_val_def digit_val_def)
  next
    case False
    then show ?thesis
      using 1 by (subst str_nat.simps) (simp add: digits_val_snoc digit_val_def)
  qed
qed

section \<open>Properties of the byte-size parser\<close>

text \<open>The characters of a number followed by ASCII whitespace.\<close>

lemma number_text_chars:
  assumes "list_all is_digit ip" "list_all is_digit fp" "list_all is_ascii_space sp"
    and "c \<in> set (number_text ip fp @ sp)"
  shows "is_digit c \<or> c = point \<or> is_ascii_space c"
  using assms by (auto simp: number_text_def list_all_iff split: if_splits)

lemma number_text_ascii:
  assumes "list_all is_digit ip" "list_all is_digit fp" "list_all is_ascii_space sp"
  shows "is_ascii (number_text ip fp @ sp)"
proof -
  have "c < 128" if "c \<in> set (number_text ip fp @ sp)" for c
    using number_text_chars [OF assms that]
    by (auto simp: is_digit_def is_ascii_space_def)
  then show ?thesis by (simp add: is_ascii_def list_all_iff)
qed

lemma number_text_lower_ascii:
  assumes "list_all is_digit ip" "list_all is_digit fp" "list_all is_ascii_space sp"
  shows "map lower_ascii (number_text ip fp @ sp) = number_text ip fp @ sp"
proof -
  have "lower_ascii c = c" if "c \<in> set (number_text ip fp @ sp)" for c
    using number_text_chars [OF assms that]
    by (auto simp: is_digit_def is_ascii_space_def lower_ascii_def)
  then show ?thesis by (simp add: map_idI)
qed

text \<open>Lowering a number, whitespace and an ASCII unit lowers the unit only.\<close>

lemma number_text_lower:
  assumes "list_all is_digit ip" "list_all is_digit fp" "list_all is_ascii_space sp" "is_ascii u"
  shows "lower db (number_text ip fp @ sp @ u) = (number_text ip fp @ sp) @ lower db u"
proof -
  have "is_ascii ((number_text ip fp @ sp) @ u)"
    using number_text_ascii [OF assms(1-3)] assms(4) by (simp add: is_ascii_def)
  then have "lower db ((number_text ip fp @ sp) @ u) = map lower_ascii ((number_text ip fp @ sp) @ u)"
    by (rule lower_ascii_text)
  also have "\<dots> = map lower_ascii (number_text ip fp @ sp) @ map lower_ascii u"
    by simp
  also have "\<dots> = (number_text ip fp @ sp) @ lower db u"
    by (simp only: number_text_lower_ascii [OF assms(1-3)] lower_ascii_text [OF assms(4)])
  finally show ?thesis by simp
qed

lemma number_text_no_letter:
  assumes "list_all is_digit ip" "list_all is_digit fp" "list_all is_ascii_space sp"
    and "\<not> is_digit c" "c \<noteq> point" "\<not> is_ascii_space c"
  shows "c \<notin> set (number_text ip fp @ sp)"
  using number_text_chars [OF assms(1-3)] assms(4-6) by blast

lemma takeWhile_all: "list_all P xs \<Longrightarrow> takeWhile P xs = xs"
  by (simp add: list_all_iff)

lemma dropWhile_all: "list_all P xs \<Longrightarrow> dropWhile P xs = []"
  by (simp add: list_all_iff)

lemma not_digit_point: "\<not> is_digit point"
  by (simp add: is_digit_def)

lemma parse_decimal_number_text:
  assumes "list_all is_digit ip" "list_all is_digit fp" "ip \<noteq> []"
  shows "parse_decimal (number_text ip fp) = Some (digits_val (ip @ fp), - int (length fp))"
proof (cases "fp = []")
  case True
  then show ?thesis
    using assms by (simp add: parse_decimal_def number_text_def takeWhile_all dropWhile_all
        parse_exponent_def Let_def)
next
  case False
  have t: "takeWhile is_digit (ip @ point # fp) = ip"
    using assms(1) not_digit_point by (simp add: takeWhile_append2 list_all_iff)
  have d: "dropWhile is_digit (ip @ point # fp) = point # fp"
    using assms(1) not_digit_point by (simp add: dropWhile_append2 list_all_iff)
  show ?thesis
    using False assms(2,3)
    by (simp add: parse_decimal_def number_text_def t d takeWhile_all dropWhile_all
        parse_exponent_def Let_def)
qed

lemma number_text_ends:
  assumes "list_all is_digit ip" "list_all is_digit fp" "ip \<noteq> []"
  shows "number_text ip fp \<noteq> []" "is_digit (hd (number_text ip fp))"
    "is_digit (last (number_text ip fp))"
proof -
  show "number_text ip fp \<noteq> []" using assms(3) by (simp add: number_text_def)
  show "is_digit (hd (number_text ip fp))"
    using assms(1,3) by (cases ip) (auto simp: number_text_def)
  show "is_digit (last (number_text ip fp))"
  proof (cases "fp = []")
    case True
    then show ?thesis using assms(1,3) by (simp add: number_text_def list_all_iff)
  next
    case False
    then have "last (number_text ip fp) = last fp" by (simp add: number_text_def)
    then show ?thesis using assms(2) False by (simp add: list_all_iff)
  qed
qed

lemma digit_facts:
  assumes "is_digit c"
  shows "c \<noteq> 45" "c \<noteq> 43" "c \<noteq> underscore" "lower_ascii c \<noteq> 105" "lower_ascii c \<noteq> 110"
  using assms by (auto simp: is_digit_def lower_ascii_def)

lemma dec_value_number:
  "dec_value (digits_val (ip @ fp), - int (length fp)) = number_value ip fp"
  by (simp add: dec_value_def number_value_def power_int_minus divide_inverse)

text \<open>
  \<open>float()\<close> of a number followed by the whitespace that it skips is the double nearest to
  the value of the number.
\<close>

lemma float_from_ascii_number_text:
  assumes "list_all is_digit ip" "list_all is_digit fp" "ip \<noteq> []" "list_all is_c_space sp"
  shows "float_from_ascii (number_text ip fp @ sp) = Some (round_double (number_value ip fp))"
proof -
  let ?t = "number_text ip fp"
  note ends = number_text_ends [OF assms(1-3)]
  have s: "strip_c (?t @ sp) = ?t"
    using ends digit_not_c_space assms(4) by (intro strip_c_padded) auto
  have "list_all is_ascii_space sp"
    using assms(4) c_space_is_ascii_space by (auto simp: list_all_iff)
  then have "underscore \<notin> set (?t @ sp)"
    by (rule number_text_no_letter [OF assms(1,2)])
       (simp_all add: is_digit_def is_ascii_space_def)
  then have u: "drop_underscores 0 (?t @ sp) = Some (?t @ sp)"
    by (intro drop_underscores_none) simp_all
  obtain c cs where c: "?t = c # cs" "is_digit c"
    using ends(1,2) by (cases ?t) auto
  have sg: "take_sign ?t = (False, ?t)"
    using digit_facts [OF c(2)] by (simp add: take_sign_def c(1))
  have l: "map lower_ascii ?t \<noteq> asc ''inf''" "map lower_ascii ?t \<noteq> asc ''infinity''"
    "map lower_ascii ?t \<noteq> asc ''nan''"
    using digit_facts [OF c(2)] by (auto simp: c(1))
  show ?thesis
    using l by (simp add: float_from_ascii_def s u sg parse_decimal_number_text [OF assms(1-3)]
        dec_value_number)
qed

lemma py_float_number_text:
  assumes "list_all is_digit ip" "list_all is_digit fp" "ip \<noteq> []" "list_all is_c_space sp"
  shows "py_float db (number_text ip fp @ sp) = Some (round_double (number_value ip fp))"
proof -
  have "list_all is_ascii_space sp"
    using assms(4) c_space_is_ascii_space by (auto simp: list_all_iff)
  from number_text_ascii [OF assms(1,2) this]
  have "to_ascii db (number_text ip fp @ sp) = Some (number_text ip fp @ sp)"
    by (simp add: to_ascii_def)
  then show ?thesis
    by (simp add: py_float_def float_from_ascii_number_text [OF assms])
qed






lemma factor_list_cases:
  assumes "factor_list u = Some fs"
  shows "(u = [] \<and> fs = []) \<or> (u = asc ''kib'' \<and> fs = [1024]) \<or> (u = asc ''mib'' \<and> fs = [1024, 1024])
         \<or> (u = asc ''gib'' \<and> fs = [1024, 1024, 1024]) \<or> (u = asc ''kb'' \<and> fs = [1000])
         \<or> (u = asc ''mb'' \<and> fs = [1000, 1000]) \<or> (u = asc ''gb'' \<and> fs = [1000, 1000, 1000])"
  using assms by (simp add: factor_list_def split: if_splits)

text \<open>The parts of the parser's work that do not depend on the unit.\<close>

lemma unit_letters_skipped:
  assumes "list_all is_digit ip" "list_all is_digit fp" "list_all is_ascii_space sp"
    and "v \<noteq> []" "hd v = 107 \<or> hd v = 109 \<or> hd v = 103"
  shows "str_in v ((number_text ip fp @ sp) @ w) = str_in v w"
    and "remove_all v ((number_text ip fp @ sp) @ v) = number_text ip fp @ sp"
proof -
  have no: "hd v \<notin> set (number_text ip fp @ sp)"
    using assms(5)
    by (intro number_text_no_letter [OF assms(1-3)])
       (auto simp: is_digit_def is_ascii_space_def)
  show "str_in v ((number_text ip fp @ sp) @ w) = str_in v w"
    using assms(4) no by (rule str_in_skip)
  show "remove_all v ((number_text ip fp @ sp) @ v) = number_text ip fp @ sp"
    using assms(4) no by (simp add: remove_all_skip remove_all_self)
qed

lemma number_text_strip:
  assumes "list_all is_digit ip" "list_all is_digit fp" "ip \<noteq> []" "list_all is_ascii_space sp"
  shows "strip db (number_text ip fp @ sp) = number_text ip fp"
proof -
  note ends = number_text_ends [OF assms(1-3)]
  have "list_all (is_space db) sp"
    using assms(4) ascii_space_is_space by (auto simp: list_all_iff)
  then show ?thesis
    using ends digit_not_space by (intro strip_padded) auto
qed

lemma lower_ascii_empty: "is_ascii u \<Longrightarrow> lower db u = [] \<Longrightarrow> u = []"
  by (simp add: lower_ascii_text)

text \<open>
  The parser on a number, whitespace and a unit: the conversion of the number alone when
  there is a unit, and of the number with its whitespace when there is none.
\<close>

lemma parse_transfer_by_unit:
  assumes "list_all is_digit ip" "list_all is_digit fp" "ip \<noteq> []" "list_all is_ascii_space sp"
    and "is_ascii u" and "factor_list (lower db u) = Some fs"
  shows "parse_transfer db (number_text ip fp @ sp @ u)
         = (if u = [] then to_bytes db (number_text ip fp @ sp) []
            else to_bytes db (number_text ip fp) fs)"
proof -
  define pre where "pre = number_text ip fp @ sp"
  have low: "lower db (number_text ip fp @ sp @ u) = pre @ lower db u"
    using number_text_lower [OF assms(1,2,4,5)] by (simp add: pre_def)
  have skip: "str_in v (pre @ w) = str_in v w"
    if "v \<noteq> []" "hd v = 107 \<or> hd v = 109 \<or> hd v = 103" for v w
    unfolding pre_def using unit_letters_skipped(1) [OF assms(1,2,4) that] .
  have rem: "remove_all v (pre @ v) = pre"
    if "v \<noteq> []" "hd v = 107 \<or> hd v = 109 \<or> hd v = 103" for v
    unfolding pre_def using unit_letters_skipped(2) [OF assms(1,2,4) that] .
  have st: "strip db pre = number_text ip fp"
    unfolding pre_def by (rule number_text_strip [OF assms(1-4)])
  from factor_list_cases [OF assms(6)] show ?thesis
  proof (elim disjE conjE)
    assume u: "lower db u = []" and f: "fs = []"
    have e: "u = []" using lower_ascii_empty [OF assms(5) u] .
    have n: "\<not> str_in v pre"
      if "v \<noteq> []" "hd v = 107 \<or> hd v = 109 \<or> hd v = 103" for v
      using skip [OF that, of "[]"] that(1) by simp
    have low0: "lower db pre = pre" using low e by (simp add: pre_def lower_def)
    have "parse_transfer db pre = to_bytes db pre []"
      by (simp add: parse_transfer_def low0 n)
    then show ?thesis by (simp add: e pre_def)
  next
    assume u: "lower db u = asc ''kib''" and f: "fs = [1024]"
    then have "u \<noteq> []" by (auto simp: lower_def)
    then show ?thesis
      by (simp add: parse_transfer_def low u skip rem st f)
  next
    assume u: "lower db u = asc ''mib''" and f: "fs = [1024, 1024]"
    then have "u \<noteq> []" by (auto simp: lower_def)
    then show ?thesis
      by (simp add: parse_transfer_def low u skip rem st f)
  next
    assume u: "lower db u = asc ''gib''" and f: "fs = [1024, 1024, 1024]"
    then have "u \<noteq> []" by (auto simp: lower_def)
    then show ?thesis
      by (simp add: parse_transfer_def low u skip rem st f)
  next
    assume u: "lower db u = asc ''kb''" and f: "fs = [1000]"
    then have "u \<noteq> []" by (auto simp: lower_def)
    then show ?thesis
      by (simp add: parse_transfer_def low u skip rem st f)
  next
    assume u: "lower db u = asc ''mb''" and f: "fs = [1000, 1000]"
    then have "u \<noteq> []" by (auto simp: lower_def)
    then show ?thesis
      by (simp add: parse_transfer_def low u skip rem st f)
  next
    assume u: "lower db u = asc ''gb''" and f: "fs = [1000, 1000, 1000]"
    then have "u \<noteq> []" by (auto simp: lower_def)
    then show ?thesis
      by (simp add: parse_transfer_def low u skip rem st f)
  qed
qed


text \<open>
  Any number followed by whitespace and a unit: the result is the truncated product in
  double arithmetic, or 0 when that product is not finite.  With no unit the text goes
  to \<open>float()\<close> untrimmed, so the whitespace must be of the kind that \<open>float()\<close> skips.
\<close>

lemma parse_transfer_number_general:
  assumes "list_all is_digit ip" "list_all is_digit fp" "ip \<noteq> []" "list_all is_ascii_space sp"
    and "is_ascii u" and "factor_list (lower db u) = Some fs"
    and "u = [] \<longrightarrow> list_all is_c_space sp"
  shows "parse_transfer db (number_text ip fp @ sp @ u)
         = (case py_int (float_product (number_value ip fp) fs) of None \<Rightarrow> 0 | Some n \<Rightarrow> n)"
proof (cases "u = []")
  case True
  with assms(7) have c: "list_all is_c_space sp" by simp
  from True assms(6) have fs: "fs = []" by (simp add: lower_def factor_list_def)
  show ?thesis
    using py_float_number_text [OF assms(1-3) c, of db] parse_transfer_by_unit [OF assms(1-6)]
    by (simp add: True fs to_bytes_def float_product_def)
next
  case False
  show ?thesis
    using py_float_number_text [OF assms(1-3), of "[]" db] parse_transfer_by_unit [OF assms(1-6)]
    by (simp add: False to_bytes_def float_product_def)
qed


text \<open>Certificates for concrete roundings and truncations.\<close>

lemma round_double_cert:
  assumes "0 < q" "2 powi l \<le> q" "q < 2 powi (l + 1)"
    and "e = max (l - 52) (- 1074)"
    and "\<bar>q / 2 powi e - of_int m\<bar> < 1 / 2"
    and "of_int m * 2 powi e < (2::rat) ^ 1024"
  shows "round_double q = Finite (of_int m * 2 powi e)"
  using round_pos_cert [OF assms] assms(1) by (simp add: round_double_def)



lemma py_int_cert:
  assumes "0 \<le> n" "of_int n \<le> q" "q < of_int n + 1"
  shows "py_int (Finite q) = Some n"
proof -
  have "\<lfloor>q\<rfloor> = n" using assms(2,3) by (rule floor_unique)
  moreover have "0 \<le> q" using assms(1,2) by (meson of_int_0_le_iff order_trans)
  ultimately show ?thesis by (simp add: py_int_def)
qed


section \<open>Concrete byte sizes\<close>

lemma round_double_123: "round_double (123 / 100) = Finite (of_int 5539427541665710 * 2 powi (- 52))"
  by (rule round_double_cert [where l = 0]) simp_all

lemma round_double_45678: "round_double (45678 / 100) = Finite (of_int 8035758741368340 * 2 powi (- 44))"
  by (rule round_double_cert [where l = 8]) simp_all




lemma nv_123: "number_value (asc ''1'') (asc ''23'') = 123 / 100"
  by (simp add: number_value_def digits_val_def digit_val_def)

lemma nv_45678: "number_value (asc ''456'') (asc ''78'') = 45678 / 100"
  by (simp add: number_value_def digits_val_def digit_val_def)



lemma parse_transfer_123: "parse_transfer db (asc ''1.23'') = 1"
proof -
  have g: "parse_transfer db (number_text (asc ''1'') (asc ''23'') @ [] @ [])
          = (case py_int (float_product (number_value (asc ''1'') (asc ''23'')) []) of
               None \<Rightarrow> 0 | Some n \<Rightarrow> n)"
    by (rule parse_transfer_number_general)
       (simp_all add: is_digit_def is_ascii_space_def is_c_space_def is_ascii_def lower_ascii_text
          lower_ascii_def factor_list_def)
  have t: "number_text (asc ''1'') (asc ''23'') @ [] @ [] = asc ''1.23''"
    by (simp add: number_text_def)
  have i: "py_int (Finite (of_int 5539427541665710 * 2 powi (- 52))) = Some 1"
    by (rule py_int_cert) simp_all
  show ?thesis
    using g unfolding t nv_123 float_product_def foldl_Nil round_double_123 i by simp
qed

lemma parse_transfer_45678: "parse_transfer db (asc ''456.78'') = 456"
proof -
  have g: "parse_transfer db (number_text (asc ''456'') (asc ''78'') @ [] @ [])
          = (case py_int (float_product (number_value (asc ''456'') (asc ''78'')) []) of
               None \<Rightarrow> 0 | Some n \<Rightarrow> n)"
    by (rule parse_transfer_number_general)
       (simp_all add: is_digit_def is_ascii_space_def is_c_space_def is_ascii_def lower_ascii_text
          lower_ascii_def factor_list_def)
  have t: "number_text (asc ''456'') (asc ''78'') @ [] @ [] = asc ''456.78''"
    by (simp add: number_text_def)
  have i: "py_int (Finite (of_int 8035758741368340 * 2 powi (- 44))) = Some 456"
    by (rule py_int_cert) simp_all
  show ?thesis
    using g unfolding t nv_45678 float_product_def foldl_Nil round_double_45678 i by simp
qed







section \<open>Whitespace that float() does not skip\<close>










text \<open>A character that is neither ASCII, whitespace nor a digit is rejected.\<close>

lemma parse_transfer_cyrillic: "parse_transfer db_sample [49, 50, 1044] = 0"
proof -
  have l: "lower db_sample [49, 50, 1044] = [49, 50, 1076]"
    by (simp add: lower_def db_sample_def lower_ascii_def upt_conv_Cons nth_Cons')
  have a: "to_ascii db_sample [49, 50, 1076] = None"
    by (simp add: to_ascii_def is_ascii_def is_space_def db_sample_def)
  show ?thesis
    by (simp add: parse_transfer_def l to_bytes_def py_float_def a)
qed

section \<open>The byte-size parser\<close>






section \<open>Transfer counters\<close>

text \<open>
  Claim C2 at the line of the source's own comment.  \<open>App\<close> is active and the status
  output holds "transfer: 1.23 MiB received, 456.78 KiB sent".  The first word of each
  half is the number alone, without its unit, so the counters are 1 and 456 bytes, not
  \<open>\<lfloor>1.23 * 1024 * 1024\<rfloor> = 1289748\<close> and \<open>\<lfloor>456.78 * 1024\<rfloor> = 467742\<close>.
\<close>

theorem transfer_counters_drop_unit:
  "pi_status (fst (profile_info env_traffic (asc ''App'') st0)) = ACTIVE
   \<and> transfer_rx (fst (profile_info env_traffic (asc ''App'') st0)) = 1
   \<and> transfer_tx (fst (profile_info env_traffic (asc ''App'') st0)) = 456
   \<and> \<lfloor>(123 / 100 :: rat) * 1024 * 1024\<rfloor> = 1289748
   \<and> \<lfloor>(45678 / 100 :: rat) * 1024\<rfloor> = 467742"
proof -
  let ?out = "asc ''interface: App'' @ [newline] @ asc ''  transfer: 1.23 MiB received, 456.78 KiB sent''"
  let ?l1 = "asc ''interface: App''"
  let ?l2 = "asc ''  transfer: 1.23 MiB received, 456.78 KiB sent''"
  have s: "get_profile_status env_traffic (asc ''App'') st0
             = (ACTIVE, \<lparr>calls = [[asc ''pkexec'', asc ''wg'', asc ''show'']], active_profile = Some (asc ''App'')\<rparr>)"
    by code_simp
  have r: "run_command_with_retry env_traffic [asc ''wg'', asc ''show''] timeout_wg_show None
             \<lparr>calls = [[asc ''pkexec'', asc ''wg'', asc ''show'']], active_profile = Some (asc ''App'')\<rparr>
           = ((True, ?out),
              \<lparr>calls = [[asc ''pkexec'', asc ''wg'', asc ''show''], [asc ''pkexec'', asc ''wg'', asc ''show'']],
                 active_profile = Some (asc ''App'')\<rparr>)"
    by code_simp
  have ud: "udb env_traffic = ascii_only" by (simp add: env_traffic_def env_bombox_def)
  have ls: "split_on newline (strip ascii_only ?out) = [?l1, ?l2]" by code_simp
  have m: "\<not> str_in (asc ''transfer:'') (lower ascii_only ?l1)" "str_in (asc ''transfer:'') (lower ascii_only ?l2)" by code_simp+
  have p: "split_on comma (strip ascii_only (field1 (split_on colon ?l2)))
             = [asc ''1.23 MiB received'', asc '' 456.78 KiB sent'']"
    by code_simp
  have q: "strip ascii_only (asc ''1.23 MiB received'') = asc ''1.23 MiB received''"
    "strip ascii_only (asc '' 456.78 KiB sent'') = asc ''456.78 KiB sent''"
    "str_in (asc ''received'') (asc ''1.23 MiB received'')" "str_in (asc ''sent'') (asc ''456.78 KiB sent'')"
    "first_word ascii_only (asc ''1.23 MiB received'') = asc ''1.23''" "first_word ascii_only (asc ''456.78 KiB sent'') = asc ''456.78''"
    by code_simp+
  have tl: "transfer_lines ascii_only [?l1, ?l2] (0, 0) = (parse_transfer ascii_only (asc ''1.23''), parse_transfer ascii_only (asc ''456.78''))"
    unfolding transfer_lines.simps Let_def
    by (simp only: m p q if_True if_False list.size nth_Cons_0 nth_Cons_Suc One_nat_def) simp
  have info: "fst (profile_info env_traffic (asc ''App'') st0)
       = \<lparr>pi_name = asc ''App'', pi_status = ACTIVE, pi_config_path = ConfFile (asc ''App''),
          interface_name = [], public_key = [], endpoint = [],
          transfer_rx = 1, transfer_tx = 456, last_handshake = []\<rparr>"
    unfolding profile_info_def s prod.case Let_def r ud ls tl parse_transfer_123 parse_transfer_45678
    by simp
  have 1: "\<lfloor>(123 / 100 :: rat) * 1024 * 1024\<rfloor> = 1289748" by (rule floor_unique) simp_all
  have 2: "\<lfloor>(45678 / 100 :: rat) * 1024\<rfloor> = 467742" by (rule floor_unique) simp_all
  show ?thesis unfolding info 1 2 by simp
qed

section \<open>Turning everything off\<close>

lemma retry_loop_at_least_once:
  "\<exists>j. 1 \<le> j \<and> j \<le> Suc n
     \<and> snd (retry_loop e c t (Suc n) l st) = st\<lparr>calls := calls st @ replicate j (asc ''pkexec'' # c)\<rparr>"
proof -
  obtain ok out where o: "outcome e c t (length (calls st)) = (ok, out)" by force
  let ?st' = "st\<lparr>calls := calls st @ [asc ''pkexec'' # c]\<rparr>"
  show ?thesis
  proof (cases "ok \<or> stops_retry (udb e) out")
    case True
    then have "snd (retry_loop e c t (Suc n) l st) = st\<lparr>calls := calls st @ replicate 1 (asc ''pkexec'' # c)\<rparr>"
      by (auto simp: run_command_def o)
    then show ?thesis by (intro exI [of _ 1]) simp
  next
    case False
    from retry_loop_state [of n e c t out ?st'] obtain j where j: "j \<le> n"
      "snd (retry_loop e c t n out ?st') = ?st'\<lparr>calls := calls ?st' @ replicate j (asc ''pkexec'' # c)\<rparr>"
      by blast
    have "snd (retry_loop e c t (Suc n) l st) = st\<lparr>calls := calls st @ replicate (Suc j) (asc ''pkexec'' # c)\<rparr>"
      using False j(2) by (simp add: run_command_def o replicate_app_Cons_same)
    with j(1) show ?thesis by (intro exI [of _ "Suc j"]) simp
  qed
qed

lemma deactivate_profile_calls:
  "\<exists>j. 1 \<le> j \<and> j \<le> 3
     \<and> snd (deactivate_profile e p st)
       = st\<lparr>calls := calls st @ replicate j [asc ''pkexec'', asc ''wg-quick'', asc ''down'', p]\<rparr>"
  using retry_loop_at_least_once [of 2 e "[asc ''wg-quick'', asc ''down'', p]" timeout_wg_quick "[]" st]
  by (simp add: deactivate_profile_def run_command_with_retry_def max_attempts_None numeral_3_eq_3)

lemma deactivate_each_names: "map fst (fst (deactivate_each e names st)) = names"
proof (induction names arbitrary: st)
  case Nil
  show ?case by simp
next
  case (Cons a names)
  obtain r s where d: "deactivate_profile e a st = (r, s)" by (meson surj_pair)
  obtain ops s' where o: "deactivate_each e names s = (ops, s')" by (meson surj_pair)
  from Cons.IH [of s] have "map fst ops = names" by (simp add: o)
  then show ?case by (simp add: d o split: prod.splits)
qed

text \<open>
  \<open>turn_off_all\<close> on its three names: each is attempted, in this order and whatever the
  outcome of the ones before (between one and three invocations each); the result is
  success exactly when all three deactivations succeeded, and otherwise failure with the
  failed names and their reasons, joined by commas, after the heading.
\<close>

theorem turn_off_all_outcomes:
  "\<exists>j1 j2 j3 ops.
     1 \<le> j1 \<and> j1 \<le> 3 \<and> 1 \<le> j2 \<and> j2 \<le> 3 \<and> 1 \<le> j3 \<and> j3 \<le> 3
     \<and> calls (snd (turn_off_all e st))
         = calls st @ replicate j1 [asc ''pkexec'', asc ''wg-quick'', asc ''down'', asc ''App'']
                    @ replicate j2 [asc ''pkexec'', asc ''wg-quick'', asc ''down'', asc ''bomBox'']
                    @ replicate j3 [asc ''pkexec'', asc ''wg-quick'', asc ''down'', asc ''usa'']
     \<and> ops = fst (deactivate_each e [asc ''App'', asc ''bomBox'', asc ''usa''] st)
     \<and> map fst ops = [asc ''App'', asc ''bomBox'', asc ''usa'']
     \<and> fst (fst (turn_off_all e st)) = list_all (\<lambda>op. fst (snd op)) ops
     \<and> snd (fst (turn_off_all e st))
         = (if list_all (\<lambda>op. fst (snd op)) ops then msg_all_off
            else msg_off_errors @
                 join (asc '', '') (map (\<lambda>op. fst op @ asc '': '' @ snd (snd op))
                                  (filter (\<lambda>op. \<not> fst (snd op)) ops)))"
proof -
  let ?c = "\<lambda>p. [asc ''pkexec'', asc ''wg-quick'', asc ''down'', p]"
  obtain r1 s1 where d1: "deactivate_profile e (asc ''App'') st = (r1, s1)" by (meson surj_pair)
  obtain r2 s2 where d2: "deactivate_profile e (asc ''bomBox'') s1 = (r2, s2)" by (meson surj_pair)
  obtain r3 s3 where d3: "deactivate_profile e (asc ''usa'') s2 = (r3, s3)" by (meson surj_pair)
  from deactivate_profile_calls [of e "asc ''App''" st] d1
  obtain j1 where j1: "1 \<le> j1" "j1 \<le> 3" "s1 = st\<lparr>calls := calls st @ replicate j1 (?c (asc ''App''))\<rparr>"
    by auto
  from deactivate_profile_calls [of e "asc ''bomBox''" s1] d2
  obtain j2 where j2: "1 \<le> j2" "j2 \<le> 3" "s2 = s1\<lparr>calls := calls s1 @ replicate j2 (?c (asc ''bomBox''))\<rparr>"
    by auto
  from deactivate_profile_calls [of e "asc ''usa''" s2] d3
  obtain j3 where j3: "1 \<le> j3" "j3 \<le> 3" "s3 = s2\<lparr>calls := calls s2 @ replicate j3 (?c (asc ''usa''))\<rparr>"
    by auto
  define ops where "ops = fst (deactivate_each e [asc ''App'', asc ''bomBox'', asc ''usa''] st)"
  have de: "deactivate_each e [asc ''App'', asc ''bomBox'', asc ''usa''] st
             = ([(asc ''App'', r1), (asc ''bomBox'', r2), (asc ''usa'', r3)], s3)"
    using d1 d2 d3 by (auto split: prod.splits)
  have ops: "ops = [(asc ''App'', r1), (asc ''bomBox'', r2), (asc ''usa'', r3)]"
    unfolding ops_def de by simp
  have c3: "calls s3 = calls st @ replicate j1 (?c (asc ''App'')) @ replicate j2 (?c (asc ''bomBox''))
                         @ replicate j3 (?c (asc ''usa''))"
    by (simp add: j1(3) j2(3) j3(3))
  have t: "turn_off_all e st
            = (if list_all (\<lambda>op. fst (snd op)) ops
               then ((True, msg_all_off), s3\<lparr>active_profile := None\<rparr>)
               else ((False, msg_off_errors @
                        join (asc '', '') (map (\<lambda>op. fst op @ asc '': '' @ snd (snd op))
                                         (filter (\<lambda>op. \<not> fst (snd op)) ops))), s3))"
    unfolding turn_off_all_def turn_off_names_def de prod.case Let_def ops
    by (auto simp: case_prod_beta)
  have "calls (snd (turn_off_all e st)) = calls s3" by (simp add: t)
  with c3 j1(1,2) j2(1,2) j3(1,2) ops t show ?thesis
    by (intro exI [of _ j1] exI [of _ j2] exI [of _ j3] exI [of _ ops])
       (simp add: ops_def)
qed

theorem turn_off_all_outcomes_witness:
  "turn_off_all env_stuck st0
     = ((False, msg_off_errors @ asc ''bomBox: wg-quick: bomBox is not a WireGuard interface''),
        \<lparr>calls = [[asc ''pkexec'', asc ''wg-quick'', asc ''down'', asc ''App'']]
                   @ replicate 3 [asc ''pkexec'', asc ''wg-quick'', asc ''down'', asc ''bomBox'']
                   @ [[asc ''pkexec'', asc ''wg-quick'', asc ''down'', asc ''usa'']],
         active_profile = None\<rparr>)
   \<and> (\<exists>j1 j2 j3.
        1 \<le> j1 \<and> 1 \<le> j2 \<and> 1 \<le> j3
        \<and> calls (snd (turn_off_all env_stuck st0))
           = replicate j1 [asc ''pkexec'', asc ''wg-quick'', asc ''down'', asc ''App'']
             @ replicate j2 [asc ''pkexec'', asc ''wg-quick'', asc ''down'', asc ''bomBox'']
             @ replicate j3 [asc ''pkexec'', asc ''wg-quick'', asc ''down'', asc ''usa''])"
proof -
  have 1: "turn_off_all env_stuck st0
     = ((False, msg_off_errors @ asc ''bomBox: wg-quick: bomBox is not a WireGuard interface''),
        \<lparr>calls = [[asc ''pkexec'', asc ''wg-quick'', asc ''down'', asc ''App'']]
                   @ replicate 3 [asc ''pkexec'', asc ''wg-quick'', asc ''down'', asc ''bomBox'']
                   @ [[asc ''pkexec'', asc ''wg-quick'', asc ''down'', asc ''usa'']],
         active_profile = None\<rparr>)"
    by code_simp
  from turn_off_all_outcomes [of env_stuck st0]
  have 2: "\<exists>j1 j2 j3.
        1 \<le> j1 \<and> 1 \<le> j2 \<and> 1 \<le> j3
        \<and> calls (snd (turn_off_all env_stuck st0))
           = replicate j1 [asc ''pkexec'', asc ''wg-quick'', asc ''down'', asc ''App'']
             @ replicate j2 [asc ''pkexec'', asc ''wg-quick'', asc ''down'', asc ''bomBox'']
             @ replicate j3 [asc ''pkexec'', asc ''wg-quick'', asc ''down'', asc ''usa'']"
    by (auto simp: st0_def)
  from 1 2 show ?thesis by (intro conjI)
qed

text \<open>
  The permission-denied test of the retry loop looks for a capital letter in the lowered
  output.  It cannot fire unless the lowercase of some character beyond ASCII contains a
  capital P, which no character's does; a command refused with "Permission denied" is run
  three times under the default bound.
\<close>

theorem permission_denied_not_a_stop_marker:
  "((\<forall>t j. j < length t \<and> 128 \<le> t ! j \<longrightarrow> 80 \<notin> set (lower_ext db t j))
      \<longrightarrow> \<not> str_in (asc ''Permission denied'') (lower db s))
   \<and> \<not> stops_retry db (asc ''Permission denied'')
   \<and> calls (snd (run_command_with_retry env_denied [asc ''wg-quick'', asc ''up'', asc ''usa''] 60 None st0))
      = replicate 3 [asc ''pkexec'', asc ''wg-quick'', asc ''up'', asc ''usa'']"
proof -
  have "\<not> stops_retry db (asc ''Permission denied'')" by code_simp
  moreover have "calls (snd (run_command_with_retry env_denied [asc ''wg-quick'', asc ''up'', asc ''usa''] 60 None st0))
      = replicate 3 [asc ''pkexec'', asc ''wg-quick'', asc ''up'', asc ''usa'']"
    by code_simp
  ultimately show ?thesis using permission_denied_never_found [of db s] by blast
qed

theorem permission_denied_not_a_stop_marker_witness:
  "\<not> str_in (asc ''Permission denied'') (lower db_sample (asc ''Permission denied'' @ [1044]))
   \<and> \<not> stops_retry db_sample (asc ''Permission denied'')"
proof -
  have "\<forall>t j. j < length t \<and> 128 \<le> t ! j \<longrightarrow> 80 \<notin> set (lower_ext db_sample t j)"
    by (simp add: db_sample_def)
  then show ?thesis
    using permission_denied_not_a_stop_marker [of db_sample "asc ''Permission denied'' @ [1044]"]
    by blast
qed

section \<open>Index errors that cannot arise\<close>

text \<open>
  A transfer line has a second field (lowering creates no colon, as for the interface
  marker), and a part that contains a word has a first word.
\<close>

lemma transfer_marker_has_field:
  assumes "\<forall>s i. i < length s \<and> 128 \<le> s ! i \<longrightarrow> colon \<notin> set (lower_ext db s i)"
    and "str_in (asc ''transfer:'') (lower db line)"
  shows "2 \<le> length (split_on colon line)"
proof -
  from assms(2) have "colon \<in> set (lower db line)" using str_in_set by fastforce
  from lower_set [OF this] assms(1) have "colon \<in> set line"
    by (auto simp: lower_ascii_def split: if_splits)
  then have "filter (\<lambda>c. c = colon) line \<noteq> []"
    by (induction line) auto
  then obtain x xs where "filter (\<lambda>c. c = colon) line = x # xs"
    by (cases "filter (\<lambda>c. c = colon) line") auto
  then show ?thesis by (simp add: length_split_on)
qed

lemma split_ws_from_nonempty:
  "cur \<noteq> [] \<or> (\<exists>c\<in>set s. \<not> is_space db c) \<Longrightarrow> split_ws_from db cur s \<noteq> []"
  by (induction s arbitrary: cur) auto

lemma word_has_first_word:
  assumes "str_in w part" "w \<noteq> []" "\<not> is_space db (hd w)"
  shows "split_ws db part \<noteq> []"
proof -
  from assms(1) have "set w \<subseteq> set part" by (rule str_in_set)
  with assms(2) have "hd w \<in> set part" by (cases w) auto
  with assms(3) show ?thesis
    unfolding split_ws_def by (intro split_ws_from_nonempty) blast
qed

lemma received_has_first_word: "str_in (asc ''received'') part \<Longrightarrow> split_ws db part \<noteq> []"
  using word_has_first_word [of "asc ''received''" part db]
  by (simp add: is_space_def is_ascii_space_def)

lemma sent_has_first_word: "str_in (asc ''sent'') part \<Longrightarrow> split_ws db part \<noteq> []"
  using word_has_first_word [of "asc ''sent''" part db]
  by (simp add: is_space_def is_ascii_space_def)

end
